theory Spec2Isabelle
  imports
    Main
    "HOL-Library.Multiset"
    "HOL-Library.Sublist"
    "HOL-Library.Char_ord"
    "HOL-Library.List_Lexorder"
    "HOL-Library.AList"
begin

section \<open>Storage access layer of cloudvolume (\<^verbatim>\<open>cloudvolume/storage.py\<close>)\<close>

text \<open>
  The development embeds the backend interfaces of \<^verbatim>\<open>storage.py\<close>
  (\<^verbatim>\<open>FileInterface\<close>, \<^verbatim>\<open>GoogleCloudStorageInterface\<close>,
  \<^verbatim>\<open>S3Interface\<close>, \<^verbatim>\<open>HttpInterface\<close>), the retry wrapper, the
  \<^verbatim>\<open>Storage\<close> facade's batched reads and \<^verbatim>\<open>_radix_sort\<close>.

  Conventions. Python strings and byte strings are \<^typ>\<open>string\<close>. An exception is a
  value of \<open>py_error\<close>; a function that can raise returns \<open>py_error + 'a\<close> with
  \<open>Inl\<close> the raised exception. Python's \<^verbatim>\<open>None\<close> result of a read is
  \<^const>\<open>None\<close> of an option type. What the interfaces talk to (the file system, the
  buckets, the HTTP server, the codec of \<^verbatim>\<open>compression\<close>) is an explicit
  argument of every function.
\<close>

subsection \<open>Exceptions\<close>

text \<open>
  Modelled from the spec: the module \<^verbatim>\<open>cloudvolume/exceptions.py\<close> is not part of the
  sources. The spec (sections 4.4, 4.5, 7 and the glossary) gives server-class errors
  (transient), client-class errors ("bad request, not found, forbidden") and singles
  out not-found and forbidden. \<open>from_http_status\<close> returns the exception object for
  a status code, or nothing for a status that is no error.
\<close>

datatype http_exc =
    NotFound
  | Forbidden
  | HTTPClientError nat
  | HTTPServerError nat

definition from_http_status :: "nat \<Rightarrow> http_exc option" where
  "from_http_status st =
     (if st = 404 then Some NotFound
      else if st = 403 then Some Forbidden
      else if 400 \<le> st \<and> st < 500 then Some (HTTPClientError st)
      else if 500 \<le> st \<and> st < 600 then Some (HTTPServerError st)
      else None)"

text \<open>\<^verbatim>\<open>isinstance(err, exceptions.HTTPServerError)\<close>\<close>

fun isinstance_HTTPServerError :: "http_exc option \<Rightarrow> bool" where
  "isinstance_HTTPServerError (Some (HTTPServerError _)) = True"
| "isinstance_HTTPServerError _ = False"

text \<open>
  \<^verbatim>\<open>isinstance(err, exceptions.HTTPClientError)\<close>. Modelled from the spec: not-found
  and forbidden are client errors (glossary), so their classes are subclasses of the
  client-error class.
\<close>

fun isinstance_HTTPClientError :: "http_exc option \<Rightarrow> bool" where
  "isinstance_HTTPClientError (Some NotFound) = True"
| "isinstance_HTTPClientError (Some Forbidden) = True"
| "isinstance_HTTPClientError (Some (HTTPClientError _)) = True"
| "isinstance_HTTPClientError _ = False"

text \<open>\<^verbatim>\<open>isinstance(err, (exceptions.NotFound, exceptions.Forbidden))\<close>\<close>

fun isinstance_NotFound_Forbidden :: "http_exc option \<Rightarrow> bool" where
  "isinstance_NotFound_Forbidden (Some NotFound) = True"
| "isinstance_NotFound_Forbidden (Some Forbidden) = True"
| "isinstance_NotFound_Forbidden _ = False"

text \<open>
  The exceptions the modelled code raises or catches. \<open>ClientError code\<close> is
  \<^verbatim>\<open>botocore.exceptions.ClientError\<close> with its error code, \<open>DecodeError\<close> stands for
  whatever the codec raises on data it cannot decode.
\<close>

datatype py_error =
    NotImplementedError
  | IndexError
  | IOError
  | TooManyStreamsError
  | HTTPError http_exc
  | ClientError string
  | DecodeError

subsection \<open>The retry wrapper\<close>

text \<open>
  \<^verbatim>\<open>
  MAX_RETRIES = 7
  retry = partial(tenacity.retry,
    reraise=True,
    stop=tenacity.stop_after_attempt(MAX_RETRIES),
    wait=tenacity.wait_random_exponential(0.5, 60.0)
  )
  \<close>
  tenacity is a library outside the repository; its loop, for the options used here, is:
  call the function (attempt numbers start at 1); when the call returned, or raised an
  exception the \<^verbatim>\<open>retry=\<close> predicate rejects, that outcome is the wrapper's outcome;
  otherwise, when \<^verbatim>\<open>stop_after_attempt\<close> holds (attempt number \<open>\<ge>\<close> the bound), the
  exception of this last attempt is raised again (\<^verbatim>\<open>reraise=True\<close>); otherwise sleep
  and call again with the next attempt number. The sleep is not modelled.

  The wrapped call is \<open>fn\<close>, giving the outcome of the attempt with a given number, so
  that a call may fail on some attempts and succeed on others. The result carries the
  number of the last attempt made, which is the number of calls of \<open>fn\<close>.
\<close>

definition MAX_RETRIES :: nat where
  "MAX_RETRIES = 7"

function tenacity_retry ::
  "nat \<Rightarrow> (py_error \<Rightarrow> bool) \<Rightarrow> (nat \<Rightarrow> py_error + 'a) \<Rightarrow> nat \<Rightarrow> nat \<times> (py_error + 'a)" where
  "tenacity_retry stop_after retry_if fn attempt_number =
     (case fn attempt_number of
        Inr v \<Rightarrow> (attempt_number, Inr v)
      | Inl e \<Rightarrow>
          if \<not> retry_if e then (attempt_number, Inl e)
          else if attempt_number \<ge> stop_after then (attempt_number, Inl e)
          else tenacity_retry stop_after retry_if fn (attempt_number + 1))"
  by pat_completeness auto
termination
  by (relation "measure (\<lambda>(stop_after, retry_if, fn, attempt_number). stop_after - attempt_number)")
     auto

declare tenacity_retry.simps [simp del]

text \<open>
  \<^verbatim>\<open>@retry(retry=...)\<close> applied to a function: \<^verbatim>\<open>retry(retry=p)\<close> is
  \<^verbatim>\<open>tenacity.retry(reraise=True, stop=..., wait=..., retry=p)\<close>, a decorator that wraps
  the function with these options. The first attempt has number 1.
\<close>

definition retry :: "(py_error \<Rightarrow> bool) \<Rightarrow> (nat \<Rightarrow> py_error + 'a) \<Rightarrow> nat \<times> (py_error + 'a)" where
  "retry retry_if fn = tenacity_retry MAX_RETRIES retry_if fn 1"

text \<open>
  The bare \<^verbatim>\<open>@retry\<close> of the cloud interfaces is \<^verbatim>\<open>retry(fn)\<close>, that is
  \<^verbatim>\<open>tenacity.retry(fn, reraise=True, stop=..., wait=...)\<close>. tenacity's decorator begins
  \<^verbatim>\<open>
  def retry(*dargs, **dkw):
    # support both @retry and @retry() as valid syntax
    if len(dargs) == 1 and callable(dargs[0]):
      return retry()(dargs[0])
  \<close>
  so with one callable argument the keyword options are not used: the function is
  wrapped with tenacity's defaults, \<^verbatim>\<open>retry=retry_if_exception_type()\<close> (every
  exception is retried), \<^verbatim>\<open>stop=stop_never\<close> and no sleep. The loop is the one above
  without the stop: it ends with the first attempt that returns, or that raises an
  exception the predicate rejects. When there is no such attempt the call does not
  return, which is the value \<open>None\<close>.
\<close>

definition retry_always :: "py_error \<Rightarrow> bool" where
  "retry_always e = True"

partial_function (option) tenacity_retry_default ::
  "(nat \<Rightarrow> py_error + 'a) \<Rightarrow> nat \<Rightarrow> (nat \<times> (py_error + 'a)) option" where
  "tenacity_retry_default fn attempt_number =
     (case fn attempt_number of
        Inr v \<Rightarrow> Some (attempt_number, Inr v)
      | Inl e \<Rightarrow>
          if \<not> retry_always e then Some (attempt_number, Inl e)
          else tenacity_retry_default fn (attempt_number + 1))"

text \<open>The bare \<^verbatim>\<open>@retry\<close> applied to a function.\<close>

definition retry_bare :: "(nat \<Rightarrow> py_error + 'a) \<Rightarrow> (nat \<times> (py_error + 'a)) option" where
  "retry_bare fn = tenacity_retry_default fn 1"

text \<open>\<^verbatim>\<open>tenacity.retry_if_exception_type(exceptions.HTTPServerError)\<close>\<close>

fun retry_if_HTTPServerError :: "py_error \<Rightarrow> bool" where
  "retry_if_HTTPServerError (HTTPError e) = isinstance_HTTPServerError (Some e)"
| "retry_if_HTTPServerError _ = False"

subsection \<open>Paths\<close>

text \<open>
  The parsed layer path (\<^verbatim>\<open>extract_bucket_path\<close> of \<^verbatim>\<open>lib.py\<close>, not part of the
  sources, produces it): \<^verbatim>\<open>self._path.protocol\<close>, \<^verbatim>\<open>self._path.bucket\<close>,
  \<^verbatim>\<open>self._path.path\<close>.
\<close>

record PathSpec =
  protocol :: string
  bucket :: string
  path :: string

text \<open>
  \<^verbatim>\<open>os.path.join\<close> (posixpath): a component that starts with a slash replaces what
  was joined so far; otherwise it is appended, after a slash unless the path so far is
  empty or ends with one.
\<close>

definition join2 :: "string \<Rightarrow> string \<Rightarrow> string" where
  "join2 a b =
     (if b \<noteq> [] \<and> hd b = CHR ''/'' then b
      else if a = [] \<or> last a = CHR ''/'' then a @ b
      else a @ ''/'' @ b)"

definition os_path_join :: "string \<Rightarrow> string list \<Rightarrow> string" where
  "os_path_join a p = foldl join2 a p"

subsection \<open>The HTTP interface\<close>

text \<open>
  What \<^verbatim>\<open>self._conn\<close> (a pooled hyper connection) does is the environment of the
  interface. \<open>server n method key\<close> is the response to the \<open>n\<close>-th request the
  connection sends (counted from 0), so a server may answer the same request differently
  over time. On an HTTP/2 connection \<^verbatim>\<open>request\<close> returns the stream id, here the
  request's number, and raises \<^verbatim>\<open>TooManyStreamsError\<close> when \<open>max_streams\<close> streams
  are open; on an HTTP/1.1 connection it returns \<^verbatim>\<open>None\<close>. \<^verbatim>\<open>get_response\<close> with a
  stream id reads that stream's response, without one the response to the latest request.
  The number of requests sent so far is threaded through every function as \<open>sent\<close>.
\<close>

record http_response =
  status :: nat
  body :: string

record http_conn =
  http2 :: bool
  max_streams :: nat
  server :: "nat \<Rightarrow> string \<Rightarrow> string \<Rightarrow> http_response"

text \<open>
  \<^verbatim>\<open>self._conn.request(method, key)\<close> while \<open>inflight\<close> streams of this connection
  are open.
\<close>

definition conn_request :: "http_conn \<Rightarrow> nat \<Rightarrow> nat \<Rightarrow> (py_error + nat option) \<times> nat" where
  "conn_request C inflight sent =
     (if http2 C then
        (if inflight \<ge> max_streams C then (Inl TooManyStreamsError, sent)
         else (Inr (Some sent), sent + 1))
      else (Inr None, sent + 1))"

text \<open>\<^verbatim>\<open>self._conn.get_response(stream_id)\<close> for a request of \<open>method\<close> and \<open>key\<close>.\<close>

definition conn_get_response ::
  "http_conn \<Rightarrow> nat option \<Rightarrow> nat \<Rightarrow> string \<Rightarrow> string \<Rightarrow> http_response" where
  "conn_get_response C stream_id sent method key =
     server C (case stream_id of Some n \<Rightarrow> n | None \<Rightarrow> sent - 1) method key"

text \<open>
  \<^verbatim>\<open>
  def get_path_to_file(self, file_path):
    path = os.path.join(self._path.bucket, self._path.path, file_path)
    return self._path.protocol + '://' + path
  \<close>
\<close>

definition HttpInterface_get_path_to_file :: "PathSpec \<Rightarrow> string \<Rightarrow> string" where
  "HttpInterface_get_path_to_file P file_path =
     protocol P @ ''://'' @ os_path_join (bucket P) [path P, file_path]"

text \<open>
  \<^verbatim>\<open>
  # @retry
  def delete_file(self, file_path):
    raise NotImplementedError()

  # @retry
  def put_file(self, file_path, content, content_type, compress, cache_control=None):
    raise NotImplementedError()

  def list_files(self, prefix, flat=False):
    raise NotImplementedError()
  \<close>
  None of the three is wrapped by \<^verbatim>\<open>retry\<close>, and \<^verbatim>\<open>list_files\<close> has no
  \<^verbatim>\<open>yield\<close>, so it is an ordinary function that raises when called. Each returns the
  count of requests sent as it received it.
\<close>

definition HttpInterface_delete_file ::
  "http_conn \<Rightarrow> PathSpec \<Rightarrow> string \<Rightarrow> nat \<Rightarrow> (py_error + unit) \<times> nat" where
  "HttpInterface_delete_file C P file_path sent = (Inl NotImplementedError, sent)"

definition HttpInterface_put_file ::
  "http_conn \<Rightarrow> PathSpec \<Rightarrow> string \<Rightarrow> string \<Rightarrow> string option \<Rightarrow> string option
     \<Rightarrow> string option \<Rightarrow> nat \<Rightarrow> (py_error + unit) \<times> nat" where
  "HttpInterface_put_file C P file_path content content_type compress cache_control sent =
     (Inl NotImplementedError, sent)"

definition HttpInterface_list_files ::
  "http_conn \<Rightarrow> PathSpec \<Rightarrow> string \<Rightarrow> bool \<Rightarrow> nat \<Rightarrow> (py_error + string list) \<times> nat" where
  "HttpInterface_list_files C P pfx flat sent = (Inl NotImplementedError, sent)"

text \<open>
  The body of \<^verbatim>\<open>get_file\<close>, one attempt:
  \<^verbatim>\<open>
  key = self.get_path_to_file(file_path)
  self._conn.request('GET', key)
  resp = self._conn.get_response()
  err = exceptions.from_http_status(resp.status, resp.reason)
  if isinstance(err, (exceptions.HTTPServerError, exceptions.HTTPClientError)):
    resp.close()
    raise err
  result = resp.read()
  resp.close()
  return result
  \<close>
\<close>

definition get_file_attempt ::
  "http_conn \<Rightarrow> PathSpec \<Rightarrow> string \<Rightarrow> nat \<Rightarrow> nat \<Rightarrow> (py_error + string) \<times> nat" where
  "get_file_attempt C P file_path inflight sent =
     (let key = HttpInterface_get_path_to_file P file_path in
      case conn_request C inflight sent of
        (Inl e, sent') \<Rightarrow> (Inl e, sent')
      | (Inr _, sent') \<Rightarrow>
          (let resp = conn_get_response C None sent' ''GET'' key;
               err = from_http_status (status resp)
           in case err of
                Some e \<Rightarrow>
                  if isinstance_HTTPServerError err \<or> isinstance_HTTPClientError err
                  then (Inl (HTTPError e), sent')
                  else (Inr (body resp), sent')
              | None \<Rightarrow> (Inr (body resp), sent')))"

text \<open>
  \<^verbatim>\<open>@retry(retry=tenacity.retry_if_exception_type(exceptions.HTTPServerError))\<close> around
  that body. An attempt that is retried raised a server error, so its request was sent:
  attempt \<open>k\<close> starts with \<open>sent + (k - 1)\<close> requests sent.
\<close>

definition HttpInterface_get_file ::
  "http_conn \<Rightarrow> PathSpec \<Rightarrow> string \<Rightarrow> nat \<Rightarrow> nat \<Rightarrow> (py_error + string) \<times> nat" where
  "HttpInterface_get_file C P file_path inflight sent =
     (case retry retry_if_HTTPServerError
             (\<lambda>k. fst (get_file_attempt C P file_path inflight (sent + (k - 1)))) of
        (n, r) \<Rightarrow> (r, snd (get_file_attempt C P file_path inflight (sent + (n - 1)))))"

text \<open>
  The body of \<^verbatim>\<open>exists\<close>, one attempt:
  \<^verbatim>\<open>
  key = self.get_path_to_file(file_path)
  self._conn.request('HEAD', key)
  resp = self._conn.get_response()
  err = exceptions.from_http_status(resp.status, resp.reason)
  resp.close()
  if isinstance(err, (exceptions.NotFound, exceptions.Forbidden)):
    return False
  elif isinstance(err, (exceptions.HTTPServerError, exceptions.HTTPClientError)):
    raise err
  return True
  \<close>
\<close>

definition exists_attempt ::
  "http_conn \<Rightarrow> PathSpec \<Rightarrow> string \<Rightarrow> nat \<Rightarrow> nat \<Rightarrow> (py_error + bool) \<times> nat" where
  "exists_attempt C P file_path inflight sent =
     (let key = HttpInterface_get_path_to_file P file_path in
      case conn_request C inflight sent of
        (Inl e, sent') \<Rightarrow> (Inl e, sent')
      | (Inr _, sent') \<Rightarrow>
          (let resp = conn_get_response C None sent' ''HEAD'' key;
               err = from_http_status (status resp)
           in if isinstance_NotFound_Forbidden err then (Inr False, sent')
              else case err of
                     Some e \<Rightarrow>
                       if isinstance_HTTPServerError err \<or> isinstance_HTTPClientError err
                       then (Inl (HTTPError e), sent')
                       else (Inr True, sent')
                   | None \<Rightarrow> (Inr True, sent')))"

definition HttpInterface_exists ::
  "http_conn \<Rightarrow> PathSpec \<Rightarrow> string \<Rightarrow> nat \<Rightarrow> nat \<Rightarrow> (py_error + bool) \<times> nat" where
  "HttpInterface_exists C P file_path inflight sent =
     (case retry retry_if_HTTPServerError
             (\<lambda>k. fst (exists_attempt C P file_path inflight (sent + (k - 1)))) of
        (n, r) \<Rightarrow> (r, snd (exists_attempt C P file_path inflight (sent + (n - 1)))))"

subsection \<open>Batched reads over HTTP\<close>

text \<open>
  The element of the list a batched read returns:
  \<^verbatim>\<open>{ "filename": path, "content": content, "error": error }\<close>.
\<close>

record FileResult =
  filename :: string
  content :: "string option"
  error :: "py_error option"

text \<open>The entry a batched read appends for the outcome \<open>r\<close> of one item.\<close>

definition file_result :: "string \<Rightarrow> py_error + string option \<Rightarrow> FileResult" where
  "file_result file_path r =
     (case r of
        Inr c \<Rightarrow> \<lparr>filename = file_path, content = c, error = None\<rparr>
      | Inl e \<Rightarrow> \<lparr>filename = file_path, content = None, error = Some e\<rparr>)"

text \<open>
  \<^verbatim>\<open>
  def _send_next_request():
    try:
      file_path = available[-1]
    except IndexError: # no further jobs available
      return None
    key = self.get_path_to_file(file_path)
    try:
      stream_id = self._conn.request('GET', key)
    except h2.exceptions.TooManyStreamsError: # hit server limit
      return None
    running.append((file_path, stream_id))
    del available[-1]
    return stream_id
  \<close>
  \<^verbatim>\<open>available\<close> and \<^verbatim>\<open>running\<close> are variables of the enclosing function, so the
  model takes and returns them. The only exception \<open>conn_request\<close> raises is the one
  caught here. The same function, with \<^verbatim>\<open>'HEAD'\<close>, is local to \<^verbatim>\<open>files_exist\<close>;
  the method only matters when the response is read.
\<close>

definition send_next_request ::
  "http_conn \<Rightarrow> string list \<Rightarrow> (string \<times> nat option) list \<Rightarrow> nat
     \<Rightarrow> nat option \<times> string list \<times> (string \<times> nat option) list \<times> nat" where
  "send_next_request C available running sent =
     (if available = [] then (None, available, running, sent)
      else
        (let file_path = last available in
         case conn_request C (length running) sent of
           (Inl e, sent') \<Rightarrow> (None, available, running, sent')
         | (Inr stream_id, sent') \<Rightarrow>
             (stream_id, butlast available, running @ [(file_path, stream_id)], sent')))"

text \<open>
  \<^verbatim>\<open>
  def _get_response(file_path, stream_id):
    if stream_id is None:
      resp = self._conn.get_response()
    else:
      resp = self._conn.get_response(stream_id)
    err = exceptions.from_http_status(resp.status, resp.reason)
    content = resp.read()
    resp.close()
    if isinstance(err, (exceptions.HTTPServerError)):
      return self.get_file(file_path)
    elif isinstance(err, (exceptions.HTTPClientError)):
      raise err
    else:
      return content
  \<close>
  \<open>inflight\<close> is the number of streams still open when the response has been closed.
\<close>

definition get_files_get_response ::
  "http_conn \<Rightarrow> PathSpec \<Rightarrow> string \<Rightarrow> nat option \<Rightarrow> nat \<Rightarrow> nat \<Rightarrow> (py_error + string) \<times> nat" where
  "get_files_get_response C P file_path stream_id inflight sent =
     (let resp = conn_get_response C stream_id sent ''GET'' (HttpInterface_get_path_to_file P file_path);
          err = from_http_status (status resp);
          data = body resp
      in if isinstance_HTTPServerError err then HttpInterface_get_file C P file_path inflight sent
         else if isinstance_HTTPClientError err then
           (case err of Some e \<Rightarrow> (Inl (HTTPError e), sent) | None \<Rightarrow> (Inr data, sent))
         else (Inr data, sent))"

text \<open>
  Every call of \<open>send_next_request\<close> lowers the count that bounds the two loops below:
  a request that is sent moves one path from \<^verbatim>\<open>available\<close> to \<^verbatim>\<open>running\<close>.
\<close>

lemma send_next_request_measure:
  "send_next_request C available running sent = (sid', available', running', sent') \<Longrightarrow>
   3 * length available' + 2 * length running' + (if sid' = None then 0 else 1)
     \<le> 3 * length available + 2 * length running"
  by (cases available rule: rev_cases)
     (auto simp: send_next_request_def conn_request_def Let_def split: if_splits)

text \<open>
  The loop of \<^verbatim>\<open>get_files\<close>:
  \<^verbatim>\<open>
  while running:
    if stream_id is not None:
      stream_id = _send_next_request()
    else:
      file_path, stream_id = running.popleft()
      error = None
      try:
        content = _get_response(file_path, stream_id)
      except Exception as err:
        content = None
        error = err
        print(file_path, err)
      stream_id = _send_next_request()
      results.append({ "filename": file_path, "content": content, "error": error })
  return results
  \<close>
\<close>

function get_files_loop ::
  "http_conn \<Rightarrow> PathSpec \<Rightarrow> string list \<Rightarrow> (string \<times> nat option) list \<Rightarrow> nat option
     \<Rightarrow> FileResult list \<Rightarrow> nat \<Rightarrow> FileResult list \<times> nat" where
  "get_files_loop C P available running stream_id results sent =
     (if running = [] then (results, sent)
      else if stream_id \<noteq> None then
        (case send_next_request C available running sent of
           (stream_id', available', running', sent') \<Rightarrow>
             get_files_loop C P available' running' stream_id' results sent')
      else
        (case get_files_get_response C P (fst (hd running)) (snd (hd running))
                (length (tl running)) sent of
           (r, sent1) \<Rightarrow>
             (case send_next_request C available (tl running) sent1 of
                (stream_id', available', running', sent2) \<Rightarrow>
                  get_files_loop C P available' running' stream_id'
                    (results @ [file_result (fst (hd running)) (map_sum id Some r)]) sent2)))"
  by pat_completeness auto
termination
  apply (relation "measure (\<lambda>(C, P, available, running, stream_id, results, sent).
           3 * length available + 2 * length running + (if stream_id = None then 0 else 1))")
    apply simp
   apply (auto dest!: send_next_request_measure[OF sym] split: if_splits)[1]
  apply (case_tac running)
   apply (auto dest!: send_next_request_measure[OF sym] split: if_splits)
  done

declare get_files_loop.simps [simp del]

text \<open>
  \<^verbatim>\<open>
  def get_files(self, file_paths):
    available = list(file_paths)
    running = deque()
    ...
    results = []
    stream_id = _send_next_request()
    while running: ...
  \<close>
\<close>

definition HttpInterface_get_files ::
  "http_conn \<Rightarrow> PathSpec \<Rightarrow> string list \<Rightarrow> nat \<Rightarrow> FileResult list \<times> nat" where
  "HttpInterface_get_files C P file_paths sent =
     (case send_next_request C file_paths [] sent of
        (stream_id, available, running, sent') \<Rightarrow>
          get_files_loop C P available running stream_id [] sent')"

subsection \<open>Batched existence checks over HTTP\<close>

text \<open>
  \<^verbatim>\<open>
  def _get_response(file_path, stream_id):
    if stream_id is None:
      resp = self._conn.get_response()
    else:
      resp = self._conn.get_response(stream_id)
    err = exceptions.from_http_status(resp.status, resp.reason)
    resp.close()
    if isinstance(err, (exceptions.NotFound, exceptions.Forbidden)):
      return False
    elif isinstance(err, (exceptions.HTTPServerError)):
      return self.exists(file_path)
    elif isinstance(err, (exceptions.HTTPClientError)):
      raise err
    else:
      return True
  \<close>
\<close>

definition files_exist_get_response ::
  "http_conn \<Rightarrow> PathSpec \<Rightarrow> string \<Rightarrow> nat option \<Rightarrow> nat \<Rightarrow> nat \<Rightarrow> (py_error + bool) \<times> nat" where
  "files_exist_get_response C P file_path stream_id inflight sent =
     (let resp = conn_get_response C stream_id sent ''HEAD'' (HttpInterface_get_path_to_file P file_path);
          err = from_http_status (status resp)
      in if isinstance_NotFound_Forbidden err then (Inr False, sent)
         else if isinstance_HTTPServerError err then HttpInterface_exists C P file_path inflight sent
         else if isinstance_HTTPClientError err then
           (case err of Some e \<Rightarrow> (Inl (HTTPError e), sent) | None \<Rightarrow> (Inr True, sent))
         else (Inr True, sent))"

text \<open>
  The dictionary a batched existence check returns. A value is \<^verbatim>\<open>None\<close> until the
  path's response has been read, a boolean afterwards.
\<close>

type_synonym ExistenceMap = "string \<rightharpoonup> bool option"

text \<open>
  The loop of \<^verbatim>\<open>files_exist\<close>. Nothing catches what \<^verbatim>\<open>_get_response\<close> raises, so
  the exception leaves the loop and the function.
  \<^verbatim>\<open>
  while running:
    if stream_id is not None:
      stream_id = _send_next_request()
    else:
      file_path, stream_id = running.popleft()
      result[file_path] = _get_response(file_path, stream_id)
      stream_id = _send_next_request()
  return result
  \<close>
\<close>

function files_exist_loop ::
  "http_conn \<Rightarrow> PathSpec \<Rightarrow> string list \<Rightarrow> (string \<times> nat option) list \<Rightarrow> nat option
     \<Rightarrow> ExistenceMap \<Rightarrow> nat \<Rightarrow> (py_error + ExistenceMap) \<times> nat" where
  "files_exist_loop C P available running stream_id result sent =
     (if running = [] then (Inr result, sent)
      else if stream_id \<noteq> None then
        (case send_next_request C available running sent of
           (stream_id', available', running', sent') \<Rightarrow>
             files_exist_loop C P available' running' stream_id' result sent')
      else
        (case files_exist_get_response C P (fst (hd running)) (snd (hd running))
                (length (tl running)) sent of
           (Inl e, sent1) \<Rightarrow> (Inl e, sent1)
         | (Inr b, sent1) \<Rightarrow>
             (case send_next_request C available (tl running) sent1 of
                (stream_id', available', running', sent2) \<Rightarrow>
                  files_exist_loop C P available' running' stream_id'
                    (result(fst (hd running) \<mapsto> Some b)) sent2)))"
  by pat_completeness auto
termination
  apply (relation "measure (\<lambda>(C, P, available, running, stream_id, result, sent).
           3 * length available + 2 * length running + (if stream_id = None then 0 else 1))")
    apply simp
   apply (auto dest!: send_next_request_measure[OF sym] split: if_splits)[1]
  apply (case_tac running)
   apply (auto dest!: send_next_request_measure[OF sym] split: if_splits)
  done

declare files_exist_loop.simps [simp del]

text \<open>
  \<^verbatim>\<open>
  def files_exist(self, file_paths):
    available = list(file_paths)
    running = deque()
    ...
    result = {file_path: None for file_path in file_paths}
    stream_id = _send_next_request()
    while running: ...
  \<close>
\<close>

definition HttpInterface_files_exist ::
  "http_conn \<Rightarrow> PathSpec \<Rightarrow> string list \<Rightarrow> nat \<Rightarrow> (py_error + ExistenceMap) \<times> nat" where
  "HttpInterface_files_exist C P file_paths sent =
     (case send_next_request C file_paths [] sent of
        (stream_id, available, running, sent') \<Rightarrow>
          files_exist_loop C P available running stream_id
            (map_of (map (\<lambda>file_path. (file_path, None)) file_paths)) sent')"

subsection \<open>The file system and \<^verbatim>\<open>os.path\<close>\<close>

text \<open>
  The state of the file system: the regular files, each an absolute path in normal form
  (no empty, \<^verbatim>\<open>.\<close> or \<^verbatim>\<open>..\<close> component) with its bytes; no two entries share a
  path. The order of the list stands for the order in which the operating system
  enumerates files. A directory exists when a file lies below it.
\<close>

type_synonym filesystem = "(string \<times> string) list"

definition os_path_isfile :: "filesystem \<Rightarrow> string \<Rightarrow> bool" where
  "os_path_isfile fs p = (map_of fs p \<noteq> None)"

definition as_directory :: "string \<Rightarrow> string" where
  "as_directory p = (if p \<noteq> [] \<and> last p = CHR ''/'' then p else p @ ''/'')"

definition os_path_isdir :: "filesystem \<Rightarrow> string \<Rightarrow> bool" where
  "os_path_isdir fs p = (p \<noteq> [] \<and> list_ex (\<lambda>f. prefix (as_directory p) f) (map fst fs))"

definition os_path_exists :: "filesystem \<Rightarrow> string \<Rightarrow> bool" where
  "os_path_exists fs p = (os_path_isfile fs p \<or> os_path_isdir fs p)"

text \<open>
  \<^verbatim>\<open>with open(path, 'rb') as f: data = f.read()\<close> raises \<^verbatim>\<open>IOError\<close> unless the
  path is a regular file.
\<close>

definition open_rb :: "filesystem \<Rightarrow> string \<Rightarrow> py_error + string" where
  "open_rb fs p = (case map_of fs p of Some d \<Rightarrow> Inr d | None \<Rightarrow> Inl IOError)"

text \<open>
  \<^verbatim>\<open>with open(path, 'wb') as f: f.write(content)\<close> creates or truncates the file. It
  raises \<^verbatim>\<open>IOError\<close> when the path names a directory or is not a file name.
\<close>

definition open_wb :: "filesystem \<Rightarrow> string \<Rightarrow> string \<Rightarrow> py_error + filesystem" where
  "open_wb fs p d =
     (if p = [] \<or> last p = CHR ''/'' \<or> os_path_isdir fs p then Inl IOError
      else Inr (AList.update p d fs))"

text \<open>\<^verbatim>\<open>os.remove(path)\<close> removes a regular file and raises for anything else.\<close>

definition os_remove :: "filesystem \<Rightarrow> string \<Rightarrow> py_error + filesystem" where
  "os_remove fs p = (if os_path_isfile fs p then Inr (AList.delete p fs) else Inl IOError)"

text \<open>
  \<^verbatim>\<open>mkdir\<close> of \<^verbatim>\<open>lib.py\<close> (not part of the sources) creates the directory and its
  parents. Directories are implicit in the state, so it changes nothing; it raises when
  the directory or one of its parents is a regular file.
\<close>

definition mkdir :: "filesystem \<Rightarrow> string \<Rightarrow> py_error + unit" where
  "mkdir fs d =
     (if list_ex (\<lambda>f. f = d \<or> prefix (f @ ''/'') d) (map fst fs) then Inl IOError else Inr ())"

text \<open>
  \<^verbatim>\<open>os.path.dirname\<close> (posixpath): the part up to the last slash, without its
  trailing slashes unless it consists of slashes only.
  \<^verbatim>\<open>
  i = p.rfind('/') + 1
  head = p[:i]
  if head and head != '/'*len(head):
    head = head.rstrip('/')
  return head
  \<close>
\<close>

definition os_path_dirname :: "string \<Rightarrow> string" where
  "os_path_dirname p =
     (let head = rev (dropWhile (\<lambda>c. c \<noteq> CHR ''/'') (rev p))
      in if head \<noteq> [] \<and> head \<noteq> replicate (length head) (CHR ''/'')
         then rev (dropWhile (\<lambda>c. c = CHR ''/'') (rev head))
         else head)"

text \<open>\<^verbatim>\<open>os.path.basename\<close>: the part after the last slash.\<close>

definition os_path_basename :: "string \<Rightarrow> string" where
  "os_path_basename p = rev (takeWhile (\<lambda>c. c \<noteq> CHR ''/'') (rev p))"

text \<open>\<^verbatim>\<open>s.rfind(c)\<close>: the index of the last occurrence, or \<open>-1\<close>.\<close>

definition rfind :: "string \<Rightarrow> char \<Rightarrow> int" where
  "rfind s c =
     (if c \<in> set s then int (length s) - 1 - int (length (takeWhile (\<lambda>x. x \<noteq> c) (rev s)))
      else - 1)"

text \<open>
  \<^verbatim>\<open>os.path.splitext\<close> (genericpath):
  \<^verbatim>\<open>
  sepIndex = p.rfind(sep)
  dotIndex = p.rfind(extsep)
  if dotIndex > sepIndex:
    # skip all leading dots
    filenameIndex = sepIndex + 1
    while filenameIndex < dotIndex:
      if p[filenameIndex:filenameIndex+1] != extsep:
        return p[:dotIndex], p[dotIndex:]
      filenameIndex += 1
  return p, p[:0]
  \<close>
\<close>

definition os_path_splitext :: "string \<Rightarrow> string \<times> string" where
  "os_path_splitext p =
     (let sepIndex = rfind p (CHR ''/'');
          dotIndex = rfind p (CHR ''.'')
      in if dotIndex > sepIndex \<and>
            list_ex (\<lambda>c. c \<noteq> CHR ''.'')
              (take (nat (dotIndex - (sepIndex + 1))) (drop (nat (sepIndex + 1)) p))
         then (take (nat dotIndex) p, drop (nat dotIndex) p)
         else (p, []))"

text \<open>
  \<^verbatim>\<open>s.replace(old, '')\<close>: every occurrence of \<open>old\<close>, found from the left without
  overlaps, is removed; an empty \<open>old\<close> leaves the string as it is.
\<close>

function str_replace :: "string \<Rightarrow> string \<Rightarrow> string" where
  "str_replace old [] = []"
| "str_replace old (c # s) =
     (if old \<noteq> [] \<and> prefix old (c # s) then str_replace old (drop (length old) (c # s))
      else c # str_replace old s)"
  by pat_completeness auto
termination
  by (relation "measure (\<lambda>(old, s). length s)") (auto simp: neq_Nil_conv)

text \<open>
  \<^verbatim>\<open>glob(base + '*')\<close> where \<open>base\<close> has no wildcard of its own: the entries, files
  and directories, of the directory of \<open>base\<close> whose name starts with the last
  component of \<open>base\<close>. A name that starts with a dot only matches a pattern that starts
  with a dot. Each entry is the path of a file of the state cut at the first slash after
  \<open>base\<close>.
\<close>

definition glob_star :: "filesystem \<Rightarrow> string \<Rightarrow> string list" where
  "glob_star fs base =
     remdups
       (map (\<lambda>f. base @ takeWhile (\<lambda>c. c \<noteq> CHR ''/'') (drop (length base) f))
          (filter
             (\<lambda>f. prefix base f \<and>
                  (if os_path_basename base = []
                   then drop (length base) f \<noteq> [] \<and>
                        hd (drop (length base) f) \<noteq> CHR ''/'' \<and>
                        hd (drop (length base) f) \<noteq> CHR ''.''
                   else True))
             (map fst fs)))"

text \<open>
  The files \<^verbatim>\<open>os.walk(subdir)\<close> reaches, each as
  \<^verbatim>\<open>os.path.join(root, f)\<close>: the regular files below \<open>subdir\<close>. The walk of a path
  that is no directory is empty.
\<close>

definition os_walk_files :: "filesystem \<Rightarrow> string \<Rightarrow> string list" where
  "os_walk_files fs subdir =
     (if subdir = [] then [] else filter (prefix (as_directory subdir)) (map fst fs))"

subsection \<open>The codec\<close>

text \<open>
  Modelled from the spec: the module \<^verbatim>\<open>compression.py\<close> is not part of the sources.
  The spec gives it as two pure functions, \<^verbatim>\<open>compress(bytes, method)\<close> and
  \<^verbatim>\<open>decompress(bytes, encoding)\<close>; both are parameters here, and either may raise.
\<close>

record codec =
  compression_compress :: "string \<Rightarrow> string option \<Rightarrow> py_error + string"
  compression_decompress :: "string \<Rightarrow> string option \<Rightarrow> py_error + string"

text \<open>Python's truth value of a \<^verbatim>\<open>compress\<close> argument: neither \<^verbatim>\<open>None\<close> nor empty.\<close>

definition truthy :: "string option \<Rightarrow> bool" where
  "truthy x = (case x of None \<Rightarrow> False | Some s \<Rightarrow> s \<noteq> [])"

subsection \<open>Most significant character radix sort\<close>

text \<open>
  The outcomes of a list of computations, in order; the first exception raised is the
  outcome of the whole.
\<close>

fun collect :: "(py_error + 'a) list \<Rightarrow> py_error + 'a list" where
  "collect [] = Inr []"
| "collect (r # rs) =
     (case r of
        Inl e \<Rightarrow> Inl e
      | Inr v \<Rightarrow> (case collect rs of Inl e \<Rightarrow> Inl e | Inr vs \<Rightarrow> Inr (v # vs)))"

text \<open>
  \<^verbatim>\<open>
  def _radix_sort(L, i=0):
    if len(L) <= 1:
      return L
    done_bucket = []
    buckets = [ [] for x in range(255) ]
    for s in L:
      if i >= len(s):
        done_bucket.append(s)
      else:
        buckets[ ord(s[i]) ].append(s)
    buckets = [ _radix_sort(b, i + 1) for b in buckets ]
    return done_bucket + [ b for blist in buckets for b in blist ]
  \<close>
  There are 255 buckets, with the indices 0 to 254, so a string whose character at
  position \<open>i\<close> has a code of 255 or more raises \<^verbatim>\<open>IndexError\<close>. The strings of
  this development are lists of 8-bit characters, with the codes 0 to 255; a Python 3
  name may hold any code point, and every code point from 255 up is outside the buckets
  like the code 255 here. The \<^verbatim>\<open>for\<close> loop appends
  each string to the bucket of its character and keeps the order of \<open>L\<close>: bucket \<open>c\<close>
  is the sublist of the strings longer than \<open>i\<close> whose character at \<open>i\<close> has the code
  \<open>c\<close>.
\<close>

definition maxlen :: "string list \<Rightarrow> nat" where
  "maxlen L = foldr (\<lambda>s m. max (length s) m) L 0"

lemma maxlen_ge: "s \<in> set L \<Longrightarrow> length s \<le> maxlen L"
  unfolding maxlen_def by (induction L) auto

lemma maxlen_filter: "maxlen (filter Q L) \<le> maxlen L"
  unfolding maxlen_def by (induction L) auto

function radix_sort :: "string list \<Rightarrow> nat \<Rightarrow> py_error + string list" where
  "radix_sort L i =
     (if length L \<le> 1 then Inr L
      else if list_ex (\<lambda>s. i < length s \<and> 255 \<le> (of_char (s ! i) :: nat)) L
      then Inl IndexError
      else
        (case collect
                (map (\<lambda>c. radix_sort
                             (filter (\<lambda>s. i < length s \<and> (of_char (s ! i) :: nat) = c) L) (i + 1))
                   [0..<255]) of
           Inl e \<Rightarrow> Inl e
         | Inr buckets \<Rightarrow> Inr (filter (\<lambda>s. i \<ge> length s) L @ concat buckets)))"
  by pat_completeness auto
termination
proof (relation "measure (\<lambda>(L, i). if length L \<le> 1 then 0 else 1 + (1 + maxlen L - i))", goal_cases)
  case 1
  show ?case by simp
next
  case (2 L i c)
  let ?B = "filter (\<lambda>s. i < length s \<and> (of_char (s ! i) :: nat) = c) L"
  show ?case
  proof (cases "length ?B \<le> 1")
    case True
    with 2 show ?thesis by simp
  next
    case False
    then obtain s where s: "s \<in> set ?B"
      by (cases ?B) auto
    then have "i < length s" by simp
    with maxlen_ge[OF s] have "i < maxlen ?B" by simp
    moreover have "maxlen ?B \<le> maxlen L" by (rule maxlen_filter)
    ultimately show ?thesis using 2 False by simp
  qed
qed

declare radix_sort.simps [simp del]

subsection \<open>The file interface\<close>

text \<open>
  \<^verbatim>\<open>
  def get_path_to_file(self, file_path):
    return os.path.join(self._path.bucket, self._path.path, file_path)
  \<close>
\<close>

definition FileInterface_get_path_to_file :: "PathSpec \<Rightarrow> string \<Rightarrow> string" where
  "FileInterface_get_path_to_file P file_path = os_path_join (bucket P) [path P, file_path]"

text \<open>
  \<^verbatim>\<open>
  def put_file(self, file_path, content, content_type, compress, cache_control=None):
    path = self.get_path_to_file(file_path)
    mkdir(os.path.dirname(path))
    if compress:
      path += '.gz'
    if content \
      and content_type \
      and re.search('json|te?xt', content_type) \
      and type(content) is str:
      content = content.encode('utf-8')
    try:
      with open(path, 'wb') as f:
        f.write(content)
    except IOError as err:
      with open(path, 'wb') as f:
        f.write(content)
  \<close>
  The content is a byte string, so the branch that encodes a \<^verbatim>\<open>str\<close> is not taken.
\<close>

definition FileInterface_put_file ::
  "filesystem \<Rightarrow> PathSpec \<Rightarrow> string \<Rightarrow> string \<Rightarrow> string option \<Rightarrow> string option
     \<Rightarrow> string option \<Rightarrow> py_error + filesystem" where
  "FileInterface_put_file fs P file_path data content_type compress cache_control =
     (let p = FileInterface_get_path_to_file P file_path in
      case mkdir fs (os_path_dirname p) of
        Inl e \<Rightarrow> Inl e
      | Inr _ \<Rightarrow>
          (let p' = (if truthy compress then p @ ''.gz'' else p) in
           case open_wb fs p' data of
             Inr fs' \<Rightarrow> Inr fs'
           | Inl IOError \<Rightarrow> open_wb fs p' data
           | Inl e \<Rightarrow> Inl e))"

text \<open>
  \<^verbatim>\<open>
  def get_file(self, file_path):
    path = self.get_path_to_file(file_path)
    compressed = os.path.exists(path + '.gz')
    if compressed:
      path += '.gz'
    encoding = 'gzip' if compressed else None
    try:
      with open(path, 'rb') as f:
        data = f.read()
      return compression.decompress(data, encoding, filename=file_path)
    except IOError:
      return None
  \<close>
\<close>

definition FileInterface_get_file ::
  "codec \<Rightarrow> filesystem \<Rightarrow> PathSpec \<Rightarrow> string \<Rightarrow> py_error + string option" where
  "FileInterface_get_file K fs P file_path =
     (let p = FileInterface_get_path_to_file P file_path;
          compressed = os_path_exists fs (p @ ''.gz'');
          p' = (if compressed then p @ ''.gz'' else p);
          encoding = (if compressed then Some ''gzip'' else None)
      in case (case open_rb fs p' of
                 Inl e \<Rightarrow> Inl e
               | Inr data \<Rightarrow> compression_decompress K data encoding) of
           Inr d \<Rightarrow> Inr (Some d)
         | Inl IOError \<Rightarrow> Inr None
         | Inl e \<Rightarrow> Inl e)"

text \<open>
  \<^verbatim>\<open>
  def get_files(self, file_paths):
    results = []
    for path in file_paths:
      error = None
      try:
        content = self.get_file(path)
      except Exception as err:
        content, encoding = None, None
        error = err
        print(err)
      results.append({ "filename": path, "content": content, "error": error })
    return results
  \<close>
\<close>

definition FileInterface_get_files ::
  "codec \<Rightarrow> filesystem \<Rightarrow> PathSpec \<Rightarrow> string list \<Rightarrow> FileResult list" where
  "FileInterface_get_files K fs P file_paths =
     map (\<lambda>file_path. file_result file_path (FileInterface_get_file K fs P file_path)) file_paths"

text \<open>
  \<^verbatim>\<open>
  def exists(self, file_path):
    path = self.get_path_to_file(file_path)
    return os.path.exists(path) or os.path.exists(path + '.gz')

  def files_exist(self, file_paths):
    return {path: self.exists(path) for path in file_paths}
  \<close>
\<close>

definition FileInterface_exists :: "filesystem \<Rightarrow> PathSpec \<Rightarrow> string \<Rightarrow> bool" where
  "FileInterface_exists fs P file_path =
     (let p = FileInterface_get_path_to_file P file_path
      in os_path_exists fs p \<or> os_path_exists fs (p @ ''.gz''))"

definition FileInterface_files_exist ::
  "filesystem \<Rightarrow> PathSpec \<Rightarrow> string list \<Rightarrow> (string \<rightharpoonup> bool)" where
  "FileInterface_files_exist fs P file_paths =
     map_of (map (\<lambda>file_path. (file_path, FileInterface_exists fs P file_path)) file_paths)"

text \<open>
  \<^verbatim>\<open>
  def delete_file(self, file_path):
    path = self.get_path_to_file(file_path)
    if os.path.exists(path):
      os.remove(path)
    elif os.path.exists(path + '.gz'):
      os.remove(path + '.gz')
  \<close>
\<close>

definition FileInterface_delete_file ::
  "filesystem \<Rightarrow> PathSpec \<Rightarrow> string \<Rightarrow> py_error + filesystem" where
  "FileInterface_delete_file fs P file_path =
     (let p = FileInterface_get_path_to_file P file_path
      in if os_path_exists fs p then os_remove fs p
         else if os_path_exists fs (p @ ''.gz'') then os_remove fs (p @ ''.gz'')
         else Inr fs)"

text \<open>
  \<^verbatim>\<open>
  def stripgz(fname):
    (base, ext) = os.path.splitext(fname)
    if ext == '.gz':
      return base
    else:
      return fname
  \<close>
\<close>

definition stripgz :: "string \<Rightarrow> string" where
  "stripgz fname =
     (case os_path_splitext fname of (base, ext) \<Rightarrow> if ext = ''.gz'' then base else fname)"

text \<open>
  The names \<^verbatim>\<open>list_files\<close> collects in \<^verbatim>\<open>filenames\<close> before it strips and sorts
  them:
  \<^verbatim>\<open>
  layer_path = self.get_path_to_file("")
  path = os.path.join(layer_path, prefix) + '*'
  filenames = []
  remove = layer_path
  if len(remove) and remove[-1] != '/':
    remove += '/'
  if flat:
    for file_path in glob(path):
      if not os.path.isfile(file_path):
        continue
      filename = file_path.replace(remove, '')
      filenames.append(filename)
  else:
    subdir = os.path.join(layer_path, os.path.dirname(prefix))
    for root, dirs, files in os.walk(subdir):
      files = [ os.path.join(root, f) for f in files ]
      files = [ f.replace(remove, '') for f in files ]
      files = [ f for f in files if f[:len(prefix)] == prefix ]
      for filename in files:
        filenames.append(filename)
  \<close>
\<close>

definition FileInterface_filenames :: "filesystem \<Rightarrow> PathSpec \<Rightarrow> string \<Rightarrow> bool \<Rightarrow> string list" where
  "FileInterface_filenames fs P pfx flat =
     (let layer_path = FileInterface_get_path_to_file P [];
          remove = (if layer_path \<noteq> [] \<and> last layer_path \<noteq> CHR ''/''
                    then layer_path @ ''/'' else layer_path)
      in if flat then
           map (str_replace remove)
             (filter (os_path_isfile fs) (glob_star fs (os_path_join layer_path [pfx])))
         else
           filter (\<lambda>f. take (length pfx) f = pfx)
             (map (str_replace remove)
                (os_walk_files fs (os_path_join layer_path [os_path_dirname pfx]))))"

text \<open>
  \<^verbatim>\<open>
  filenames = list(map(stripgz, filenames))
  return _radix_sort(filenames).__iter__()
  \<close>
\<close>

definition FileInterface_list_files ::
  "filesystem \<Rightarrow> PathSpec \<Rightarrow> string \<Rightarrow> bool \<Rightarrow> py_error + string list" where
  "FileInterface_list_files fs P pfx flat =
     radix_sort (map stripgz (FileInterface_filenames fs P pfx flat)) 0"

subsection \<open>The S3 interface\<close>

text \<open>
  What \<^verbatim>\<open>self._conn\<close> (a boto3 client) does is the environment: the objects of the
  bucket, in the order in which the service lists them; the exception, if any, that the
  service raises for the \<open>k\<close>-th attempt of a call on a key; and the number of keys per
  page of a listing.
\<close>

record s3_object =
  Body :: string
  ContentEncoding :: "string option"

record s3_conn =
  s3_objects :: "(string \<times> s3_object) list"
  s3_fault :: "nat \<Rightarrow> string \<Rightarrow> py_error option"
  s3_max_keys :: nat

text \<open>\<^verbatim>\<open>self._conn.get_object(Bucket=..., Key=key)\<close>, attempt \<open>k\<close>.\<close>

definition s3_get_object :: "s3_conn \<Rightarrow> nat \<Rightarrow> string \<Rightarrow> py_error + s3_object" where
  "s3_get_object C k key =
     (case s3_fault C k key of
        Some e \<Rightarrow> Inl e
      | None \<Rightarrow>
          (case map_of (s3_objects C) key of
             None \<Rightarrow> Inl (ClientError ''NoSuchKey'')
           | Some obj \<Rightarrow> Inr obj))"

text \<open>\<^verbatim>\<open>self._conn.head_object(Bucket=..., Key=key)\<close>, attempt \<open>k\<close>.\<close>

definition s3_head_object :: "s3_conn \<Rightarrow> nat \<Rightarrow> string \<Rightarrow> py_error + unit" where
  "s3_head_object C k key =
     (case s3_fault C k key of
        Some e \<Rightarrow> Inl e
      | None \<Rightarrow>
          (case map_of (s3_objects C) key of
             None \<Rightarrow> Inl (ClientError ''404'')
           | Some obj \<Rightarrow> Inr ()))"

text \<open>
  \<^verbatim>\<open>
  def get_path_to_file(self, file_path):
    return os.path.join(self._path.path, file_path)
  \<close>
\<close>

definition S3Interface_get_path_to_file :: "PathSpec \<Rightarrow> string \<Rightarrow> string" where
  "S3Interface_get_path_to_file P file_path = os_path_join (path P) [file_path]"

text \<open>
  The body of \<^verbatim>\<open>get_file\<close>, attempt \<open>k\<close>:
  \<^verbatim>\<open>
  try:
    resp = self._conn.get_object(
      Bucket=self._path.bucket,
      Key=self.get_path_to_file(file_path),
    )
    encoding = ''
    if 'ContentEncoding' in resp:
      encoding = resp['ContentEncoding']
    content = resp['Body'].read()
    return compression.decompress(content, encoding)
  except botocore.exceptions.ClientError as err:
    if err.response['Error']['Code'] == 'NoSuchKey':
      return None
    else:
      raise
  \<close>
\<close>

definition S3_get_file_attempt ::
  "codec \<Rightarrow> s3_conn \<Rightarrow> PathSpec \<Rightarrow> string \<Rightarrow> nat \<Rightarrow> py_error + string option" where
  "S3_get_file_attempt K C P file_path k =
     (case (case s3_get_object C k (S3Interface_get_path_to_file P file_path) of
              Inl e \<Rightarrow> Inl e
            | Inr resp \<Rightarrow>
                (let encoding = (case ContentEncoding resp of Some enc \<Rightarrow> enc | None \<Rightarrow> [])
                 in compression_decompress K (Body resp) (Some encoding))) of
        Inr d \<Rightarrow> Inr (Some d)
      | Inl (ClientError code) \<Rightarrow>
          if code = ''NoSuchKey'' then Inr None else Inl (ClientError code)
      | Inl e \<Rightarrow> Inl e)"

text \<open>
  \<^verbatim>\<open>@retry def get_file(self, file_path)\<close>, the bare decorator: the result, after the
  number of attempts made, or \<open>None\<close> when the call does not return.
\<close>

definition S3Interface_get_file ::
  "codec \<Rightarrow> s3_conn \<Rightarrow> PathSpec \<Rightarrow> string \<Rightarrow> (nat \<times> (py_error + string option)) option" where
  "S3Interface_get_file K C P file_path = retry_bare (S3_get_file_attempt K C P file_path)"

text \<open>
  \<^verbatim>\<open>get_files\<close> of the S3 interface is the loop of the file interface's
  \<^verbatim>\<open>get_files\<close>, around this \<^verbatim>\<open>get_file\<close>; it does not return when one of the
  calls does not.
\<close>

fun S3Interface_get_files ::
  "codec \<Rightarrow> s3_conn \<Rightarrow> PathSpec \<Rightarrow> string list \<Rightarrow> FileResult list option" where
  "S3Interface_get_files K C P [] = Some []"
| "S3Interface_get_files K C P (file_path # file_paths) =
     (case S3Interface_get_file K C P file_path of
        None \<Rightarrow> None
      | Some (n, r) \<Rightarrow>
          map_option ((#) (file_result file_path r)) (S3Interface_get_files K C P file_paths))"

text \<open>
  \<^verbatim>\<open>
  def exists(self, file_path):
    exists = True
    try:
      self._conn.head_object(
        Bucket=self._path.bucket,
        Key=self.get_path_to_file(file_path),
      )
    except botocore.exceptions.ClientError as e:
      if e.response['Error']['Code'] == "404":
        exists = False
      else:
        raise
    return exists

  def files_exist(self, file_paths):
    return {path: self.exists(path) for path in file_paths}
  \<close>
\<close>

definition S3Interface_exists :: "s3_conn \<Rightarrow> PathSpec \<Rightarrow> string \<Rightarrow> py_error + bool" where
  "S3Interface_exists C P file_path =
     (case s3_head_object C 1 (S3Interface_get_path_to_file P file_path) of
        Inr _ \<Rightarrow> Inr True
      | Inl (ClientError code) \<Rightarrow> if code = ''404'' then Inr False else Inl (ClientError code)
      | Inl e \<Rightarrow> Inl e)"

definition S3Interface_files_exist ::
  "s3_conn \<Rightarrow> PathSpec \<Rightarrow> string list \<Rightarrow> py_error + (string \<rightharpoonup> bool)" where
  "S3Interface_files_exist C P file_paths =
     (case collect (map (S3Interface_exists C P) file_paths) of
        Inl e \<Rightarrow> Inl e
      | Inr bs \<Rightarrow> Inr (map_of (zip file_paths bs)))"

text \<open>
  The pages of a listing: \<^verbatim>\<open>list_objects_v2\<close> answers with at most \<open>n\<close> keys and
  \<^verbatim>\<open>IsTruncated\<close> while keys remain; the next call continues after them.
\<close>

function paginate :: "nat \<Rightarrow> 'a list \<Rightarrow> 'a list list" where
  "paginate n xs =
     (if n = 0 \<or> length xs \<le> n then [xs] else take n xs # paginate n (drop n xs))"
  by pat_completeness auto
termination
  by (relation "measure (\<lambda>(n, xs). length xs)") auto

declare paginate.simps [simp del]

text \<open>
  \<^verbatim>\<open>
  def iterate(resp):
    if 'Contents' not in resp.keys():
      resp['Contents'] = []
    for item in resp['Contents']:
      key = item['Key']
      filename = key.replace(layer_path, '')
      if not flat and filename[-1] != '/':
        yield filename
      elif flat and '/' not in key.replace(path, ''):
        yield filename
  \<close>
  over the keys of one page. \<^verbatim>\<open>filename[-1]\<close> of an empty name raises
  \<^verbatim>\<open>IndexError\<close>. A generator that raises has yielded the names before; the model keeps
  the exception only.
\<close>

fun iterate :: "string \<Rightarrow> string \<Rightarrow> bool \<Rightarrow> string list \<Rightarrow> py_error + string list" where
  "iterate layer_path pth flat [] = Inr []"
| "iterate layer_path pth flat (key # keys) =
     (let filename = str_replace layer_path key in
      if \<not> flat \<and> filename = [] then Inl IndexError
      else
        (case iterate layer_path pth flat keys of
           Inl e \<Rightarrow> Inl e
         | Inr rest \<Rightarrow>
             if \<not> flat \<and> last filename \<noteq> CHR ''/'' then Inr (filename # rest)
             else if flat \<and> CHR ''/'' \<notin> set (str_replace pth key) then Inr (filename # rest)
             else Inr rest))"

text \<open>
  \<^verbatim>\<open>
  def list_files(self, prefix, flat=False):
    layer_path = self.get_path_to_file("")
    path = os.path.join(layer_path, prefix)
    resp = self._conn.list_objects_v2(Bucket=self._path.bucket, Prefix=path)
    ...
    for filename in iterate(resp):
      yield filename
    while resp['IsTruncated'] and resp['NextContinuationToken']:
      resp = self._conn.list_objects_v2(
        Bucket=self._path.bucket, Prefix=path,
        ContinuationToken=resp['NextContinuationToken'],
      )
      for filename in iterate(resp):
        yield filename
  \<close>
  The names are yielded as the pages arrive; nothing sorts them.
\<close>

definition S3Interface_list_files ::
  "s3_conn \<Rightarrow> PathSpec \<Rightarrow> string \<Rightarrow> bool \<Rightarrow> py_error + string list" where
  "S3Interface_list_files C P pfx flat =
     (let layer_path = S3Interface_get_path_to_file P [];
          pth = os_path_join layer_path [pfx];
          pages = paginate (s3_max_keys C) (filter (prefix pth) (map fst (s3_objects C)))
      in case collect (map (iterate layer_path pth flat) pages) of
           Inl e \<Rightarrow> Inl e
         | Inr yielded \<Rightarrow> Inr (concat yielded))"

subsection \<open>The Google Cloud Storage interface\<close>

text \<open>
  The environment of \<^verbatim>\<open>self._bucket\<close>: the blobs, in the order in which
  \<^verbatim>\<open>list_blobs\<close> returns them, each with its content as \<^verbatim>\<open>download_as_string\<close>
  gives it (decoded by the client library); and the exception, if any, that the service
  raises for the \<open>k\<close>-th attempt of a call on a key.
\<close>

record gcs_bucket =
  gcs_blobs :: "(string \<times> string) list"
  gcs_fault :: "nat \<Rightarrow> string \<Rightarrow> py_error option"

text \<open>\<^verbatim>\<open>self._bucket.get_blob(key)\<close>, attempt \<open>k\<close>: the blob, or \<^verbatim>\<open>None\<close>.\<close>

definition gcs_get_blob :: "gcs_bucket \<Rightarrow> nat \<Rightarrow> string \<Rightarrow> py_error + string option" where
  "gcs_get_blob B k key =
     (case gcs_fault B k key of Some e \<Rightarrow> Inl e | None \<Rightarrow> Inr (map_of (gcs_blobs B) key))"

definition GoogleCloudStorageInterface_get_path_to_file :: "PathSpec \<Rightarrow> string \<Rightarrow> string" where
  "GoogleCloudStorageInterface_get_path_to_file P file_path = os_path_join (path P) [file_path]"

text \<open>
  \<^verbatim>\<open>
  @retry
  def get_file(self, file_path):
    key = self.get_path_to_file(file_path)
    blob = self._bucket.get_blob( key )
    if not blob:
      return None
    # blob handles the decompression
    return blob.download_as_string()
  \<close>
\<close>

text \<open>
  The decorator is the bare one: the result after the number of attempts made, or
  \<open>None\<close> when the call does not return.
\<close>

definition GoogleCloudStorageInterface_get_file ::
  "gcs_bucket \<Rightarrow> PathSpec \<Rightarrow> string \<Rightarrow> (nat \<times> (py_error + string option)) option" where
  "GoogleCloudStorageInterface_get_file B P file_path =
     retry_bare
       (\<lambda>k. gcs_get_blob B k (GoogleCloudStorageInterface_get_path_to_file P file_path))"

text \<open>
  \<^verbatim>\<open>get_files\<close> of this interface is the loop of the file interface's
  \<^verbatim>\<open>get_files\<close>, around this \<^verbatim>\<open>get_file\<close>.
\<close>

fun GoogleCloudStorageInterface_get_files ::
  "gcs_bucket \<Rightarrow> PathSpec \<Rightarrow> string list \<Rightarrow> FileResult list option" where
  "GoogleCloudStorageInterface_get_files B P [] = Some []"
| "GoogleCloudStorageInterface_get_files B P (file_path # file_paths) =
     (case GoogleCloudStorageInterface_get_file B P file_path of
        None \<Rightarrow> None
      | Some (n, r) \<Rightarrow>
          map_option ((#) (file_result file_path r))
            (GoogleCloudStorageInterface_get_files B P file_paths))"

text \<open>
  \<^verbatim>\<open>
  def exists(self, file_path):
    key = self.get_path_to_file(file_path)
    blob = self._bucket.get_blob(key)
    return blob is not None
  \<close>
\<close>

definition GoogleCloudStorageInterface_exists ::
  "gcs_bucket \<Rightarrow> PathSpec \<Rightarrow> string \<Rightarrow> py_error + bool" where
  "GoogleCloudStorageInterface_exists B P file_path =
     map_sum id (\<lambda>blob. blob \<noteq> None)
       (gcs_get_blob B 1 (GoogleCloudStorageInterface_get_path_to_file P file_path))"

text \<open>
  \<^verbatim>\<open>
  def list_files(self, prefix, flat=False):
    layer_path = self.get_path_to_file("")
    path = os.path.join(layer_path, prefix)
    for blob in self._bucket.list_blobs(prefix=path):
      filename = blob.name.replace(layer_path, '')
      if not flat and filename[-1] != '/':
        yield filename
      elif flat and '/' not in blob.name.replace(path, ''):
        yield filename
  \<close>
  The body of the loop is the body of the loop of \<open>iterate\<close>.
\<close>

definition GoogleCloudStorageInterface_list_files ::
  "gcs_bucket \<Rightarrow> PathSpec \<Rightarrow> string \<Rightarrow> bool \<Rightarrow> py_error + string list" where
  "GoogleCloudStorageInterface_list_files B P pfx flat =
     (let layer_path = GoogleCloudStorageInterface_get_path_to_file P [];
          pth = os_path_join layer_path [pfx]
      in iterate layer_path pth flat (filter (prefix pth) (map fst (gcs_blobs B))))"

subsection \<open>The facade\<close>

text \<open>
  \<^verbatim>\<open>Storage.__init__\<close> sets \<^verbatim>\<open>n_threads = 0\<close> for the protocols \<^verbatim>\<open>http\<close> and
  \<^verbatim>\<open>https\<close>, so the HTTP interface is only ever called on the caller's thread.
\<close>

definition Storage_n_threads :: "PathSpec \<Rightarrow> nat \<Rightarrow> nat" where
  "Storage_n_threads P n_threads =
     (if protocol P = ''http'' \<or> protocol P = ''https'' then 0 else n_threads)"

text \<open>
  \<^verbatim>\<open>
  def get_files(self, file_paths):
    results = []
    def get_file_thunk(paths, interface):
      results.extend(interface.get_files(paths))
    if len(self._threads):
      for block in scatter(file_paths, len(self._threads)):
        self.put(partial(get_file_thunk, block))
    else:
      get_file_thunk(file_paths, self._interface)
    desc = 'Downloading' if self.progress else None
    self.wait(desc)
    return results
  \<close>
  Modelled from the spec: \<^verbatim>\<open>ThreadedQueue\<close> (\<^verbatim>\<open>threaded_queue.py\<close>) and
  \<^verbatim>\<open>scatter\<close> (\<^verbatim>\<open>lib.py\<close>) are not part of the sources. By sections 3, 4.3 and 5 of
  the spec every enqueued task is executed to completion by exactly one worker,
  \<^verbatim>\<open>wait\<close> returns when all of them have completed, and the order of completion is
  unspecified. So \<open>completion\<close>, the order in which the tasks complete, is a parameter
  that rearranges the blocks, and \<open>scatter\<close> is a parameter too. Each task extends
  \<^verbatim>\<open>results\<close> in one step. \<open>interface_get_files\<close> is \<^verbatim>\<open>get_files\<close> of the interface
  of a worker.
\<close>

definition Storage_get_files ::
  "nat \<Rightarrow> (string list \<Rightarrow> nat \<Rightarrow> string list list) \<Rightarrow> (string list list \<Rightarrow> string list list)
     \<Rightarrow> (string list \<Rightarrow> FileResult list) \<Rightarrow> string list \<Rightarrow> FileResult list" where
  "Storage_get_files n_threads scatter completion interface_get_files file_paths =
     (if n_threads \<noteq> 0
      then concat (map interface_get_files (completion (scatter file_paths n_threads)))
      else interface_get_files file_paths)"

text \<open>
  \<^verbatim>\<open>
  def files_exist(self, file_paths):
    results = {}
    def exist_thunk(paths, interface):
      results.update(interface.files_exist(paths))
    if len(self._threads):
      for block in scatter(file_paths, len(self._threads)):
        self.put(partial(exist_thunk, block))
    else:
      exist_thunk(file_paths, self._interface)
    desc = 'Existence Testing' if self.progress else None
    self.wait(desc)
    return results
  \<close>
  \<^verbatim>\<open>results.update(d)\<close> is \<open>results ++ d\<close>.
\<close>

definition Storage_files_exist ::
  "nat \<Rightarrow> (string list \<Rightarrow> nat \<Rightarrow> string list list) \<Rightarrow> (string list list \<Rightarrow> string list list)
     \<Rightarrow> (string list \<Rightarrow> (string \<rightharpoonup> 'b)) \<Rightarrow> string list \<Rightarrow> (string \<rightharpoonup> 'b)" where
  "Storage_files_exist n_threads scatter completion interface_files_exist file_paths =
     (if n_threads \<noteq> 0
      then foldl (\<lambda>results block. results ++ interface_files_exist block) Map.empty
             (completion (scatter file_paths n_threads))
      else Map.empty ++ interface_files_exist file_paths)"

text \<open>
  \<^verbatim>\<open>
  def put_files(self, files, content_type=None, compress=None, cache_control=None, block=True):
    def base_uploadfn(path, content, interface):
      interface.put_file(path, content, content_type, compress, cache_control=cache_control)
    for path, content in files:
      content = compression.compress(content, method=compress)
      uploadfn = partial(base_uploadfn, path, content)
      if len(self._threads):
        self.put(uploadfn)
      else:
        uploadfn(self._interface)
    ...
  \<close>
  without threads (and \<^verbatim>\<open>SimpleStorage.put_files\<close>, which has no threads), over an
  interface whose \<^verbatim>\<open>put_file\<close> takes the state \<open>s\<close> of its backend and returns the new
  one. The first exception ends the loop.
\<close>

fun Storage_put_files ::
  "codec \<Rightarrow> ('s \<Rightarrow> string \<Rightarrow> string \<Rightarrow> string option \<Rightarrow> string option \<Rightarrow> string option \<Rightarrow> py_error + 's)
     \<Rightarrow> 's \<Rightarrow> (string \<times> string) list \<Rightarrow> string option \<Rightarrow> string option \<Rightarrow> string option
     \<Rightarrow> py_error + 's" where
  "Storage_put_files K interface_put_file s [] content_type compress cache_control = Inr s"
| "Storage_put_files K interface_put_file s ((file_path, data) # files) content_type compress
       cache_control =
     (case compression_compress K data compress of
        Inl e \<Rightarrow> Inl e
      | Inr data' \<Rightarrow>
          (case interface_put_file s file_path data' content_type compress cache_control of
             Inl e \<Rightarrow> Inl e
           | Inr s' \<Rightarrow>
               Storage_put_files K interface_put_file s' files content_type compress
                 cache_control))"

text \<open>
  \<^verbatim>\<open>
  def put_file(self, file_path, content, content_type=None, compress=None, cache_control=None):
    return self.put_files([ (file_path, content) ], content_type=content_type,
      compress=compress, cache_control=cache_control, block=False)
  \<close>
\<close>

definition Storage_put_file ::
  "codec \<Rightarrow> ('s \<Rightarrow> string \<Rightarrow> string \<Rightarrow> string option \<Rightarrow> string option \<Rightarrow> string option \<Rightarrow> py_error + 's)
     \<Rightarrow> 's \<Rightarrow> string \<Rightarrow> string \<Rightarrow> string option \<Rightarrow> string option \<Rightarrow> string option
     \<Rightarrow> py_error + 's" where
  "Storage_put_file K interface_put_file s file_path data content_type compress cache_control =
     Storage_put_files K interface_put_file s [(file_path, data)] content_type compress
       cache_control"

subsection \<open>Predicates and states used by the properties\<close>

text \<open>
  An attempt fails transiently when it raises an exception the wrapper's predicate
  accepts for a retry.
\<close>

definition fails_transiently :: "(py_error \<Rightarrow> bool) \<Rightarrow> (nat \<Rightarrow> py_error + 'a) \<Rightarrow> nat \<Rightarrow> bool" where
  "fails_transiently retry_if fn k = (case fn k of Inl e \<Rightarrow> retry_if e | Inr v \<Rightarrow> False)"

text \<open>A call that raises a 503 server error on every attempt before \<open>good\<close>.\<close>

definition flaky :: "nat \<Rightarrow> nat \<Rightarrow> py_error + string" where
  "flaky good k = (if k < good then Inl (HTTPError (HTTPServerError 503)) else Inr ''data'')"

text \<open>A layer on the file system below \<^verbatim>\<open>/r\<close>, and a layer over HTTPS.\<close>

definition file_layer :: PathSpec where
  "file_layer = \<lparr>protocol = ''file'', bucket = ''/r'', path = []\<rparr>"

definition http_layer :: PathSpec where
  "http_layer = \<lparr>protocol = ''https'', bucket = ''host'', path = ''d''\<rparr>"

text \<open>A server that answers every request with the status \<open>st k\<close> chosen by its key.\<close>

definition status_server :: "(string \<Rightarrow> nat) \<Rightarrow> http_conn" where
  "status_server st =
     \<lparr>http2 = True, max_streams = 100,
      server = (\<lambda>n method key. \<lparr>status = st key, body = ''page''\<rparr>)\<rparr>"

text \<open>A codec for examples: compression puts a \<open>Z\<close> in front, decoding removes it.\<close>

definition toy_codec :: codec where
  "toy_codec =
     \<lparr>compression_compress = (\<lambda>d m. if truthy m then Inr (CHR ''Z'' # d) else Inr d),
      compression_decompress =
        (\<lambda>d enc. if truthy enc
                  then (case d of [] \<Rightarrow> Inl DecodeError
                        | c # r \<Rightarrow> if c = CHR ''Z'' then Inr r else Inl DecodeError)
                  else Inr d)\<rparr>"

text \<open>An S3 layer and a Google Cloud Storage bucket that hold the given keys, in that order.\<close>

definition s3_layer :: PathSpec where
  "s3_layer = \<lparr>protocol = ''s3'', bucket = ''bkt'', path = []\<rparr>"

definition s3_of_keys :: "string list \<Rightarrow> s3_conn" where
  "s3_of_keys keys =
     \<lparr>s3_objects = map (\<lambda>k. (k, \<lparr>Body = ''x'', ContentEncoding = None\<rparr>)) keys,
      s3_fault = (\<lambda>k key. None),
      s3_max_keys = 1000\<rparr>"

definition gcs_of_keys :: "string list \<Rightarrow> gcs_bucket" where
  "gcs_of_keys keys = \<lparr>gcs_blobs = map (\<lambda>k. (k, ''x'')) keys, gcs_fault = (\<lambda>k key. None)\<rparr>"

text \<open>A layer in a Google Cloud Storage bucket.\<close>

definition gcs_layer :: PathSpec where
  "gcs_layer = \<lparr>protocol = ''gs'', bucket = ''bkt'', path = []\<rparr>"

text \<open>
  A connection admits a request when it is an HTTP/1.1 connection or lets at least one
  stream be open. One that admits none answers the first request of a batch with
  \<^verbatim>\<open>TooManyStreamsError\<close>, and the loops of \<^verbatim>\<open>get_files\<close> and \<^verbatim>\<open>files_exist\<close>
  end before they start.
\<close>

definition admits :: "http_conn \<Rightarrow> bool" where
  "admits C = (\<not> http2 C \<or> 0 < max_streams C)"

text \<open>
  A server is stationary when its answer to a request does not depend on the number of
  requests sent before it.
\<close>

definition stationary :: "http_conn \<Rightarrow> bool" where
  "stationary C = (\<forall>n method key. server C n method key = server C 0 method key)"

text \<open>
  The server settles \<^verbatim>\<open>HEAD\<close> of a path when its answer, whenever the request is made,
  is 403 or 404 or no error status at all: \<^verbatim>\<open>_get_response\<close> of \<^verbatim>\<open>files_exist\<close>
  then returns a boolean from the response alone.
\<close>

definition head_settled :: "http_conn \<Rightarrow> PathSpec \<Rightarrow> string \<Rightarrow> bool" where
  "head_settled C P file_path =
     (\<forall>n. let st = status (server C n ''HEAD'' (HttpInterface_get_path_to_file P file_path))
          in st = 403 \<or> st = 404 \<or> st < 400 \<or> 600 \<le> st)"

text \<open>
  A split of a sequence into \<open>n\<close> blocks, for examples: block \<open>i\<close> holds the elements
  at the positions \<open>i\<close>, \<open>i + n\<close>, \<open>i + 2n\<close>, ...
\<close>

definition round_robin :: "string list \<Rightarrow> nat \<Rightarrow> string list list" where
  "round_robin sequence n =
     map (\<lambda>i. map (\<lambda>j. sequence ! j) (filter (\<lambda>j. j mod n = i) [0..<length sequence])) [0..<n]"

section \<open>Properties\<close>

subsection \<open>The retry budget\<close>

lemma tenacity_retry_attempts:
  "a \<le> stop_after \<Longrightarrow> a \<le> fst (tenacity_retry stop_after retry_if fn a) \<and>
     fst (tenacity_retry stop_after retry_if fn a) \<le> stop_after"
proof (induction stop_after retry_if fn a rule: tenacity_retry.induct)
  case (1 stop_after retry_if fn attempt_number)
  show ?case
  proof (cases "fn attempt_number")
    case (Inr v)
    then show ?thesis using "1.prems"
      by (simp add: tenacity_retry.simps[of _ _ _ attempt_number])
  next
    case (Inl e)
    show ?thesis
    proof (cases "retry_if e \<and> attempt_number < stop_after")
      case True
      then have "attempt_number + 1 \<le> stop_after" by simp
      from "1.IH"[OF Inl _ _ this] True Inl show ?thesis
        by (simp add: tenacity_retry.simps[of _ _ _ attempt_number])
    next
      case False
      then show ?thesis using Inl "1.prems"
        by (auto simp: tenacity_retry.simps[of _ _ _ attempt_number])
    qed
  qed
qed

lemma tenacity_retry_skip:
  assumes "\<forall>j. a \<le> j \<and> j < k \<longrightarrow> fails_transiently retry_if fn j"
    and "a \<le> k" and "k \<le> stop_after"
  shows "tenacity_retry stop_after retry_if fn a = tenacity_retry stop_after retry_if fn k"
  using assms
proof (induction "k - a" arbitrary: a)
  case 0
  then show ?case by simp
next
  case (Suc d)
  then have lt: "a < k" and tr: "fails_transiently retry_if fn a" by auto
  from tr obtain e where e: "fn a = Inl e" "retry_if e"
    by (auto simp: fails_transiently_def split: sum.splits)
  have "tenacity_retry stop_after retry_if fn a = tenacity_retry stop_after retry_if fn (a + 1)"
    using e lt Suc.prems(3) by (subst tenacity_retry.simps) simp
  also have "\<dots> = tenacity_retry stop_after retry_if fn k"
    using Suc by (intro Suc.hyps(1)) auto
  finally show ?case .
qed

lemma tenacity_retry_stop:
  "(case fn k of Inr v \<Rightarrow> True | Inl e \<Rightarrow> \<not> retry_if e \<or> stop_after \<le> k) \<Longrightarrow>
   tenacity_retry stop_after retry_if fn k = (k, fn k)"
  by (subst tenacity_retry.simps) (auto split: sum.splits)

lemma retry_with_predicate:
  "fst (retry retry_if fn) \<le> MAX_RETRIES \<and>
   ((\<forall>k. 1 \<le> k \<and> k < n \<longrightarrow> fails_transiently retry_if fn k) \<and> 1 \<le> n \<and> n \<le> 7 \<and>
    (case fn n of Inr v \<Rightarrow> True | Inl e \<Rightarrow> \<not> retry_if e \<or> n = 7)
      \<longrightarrow> retry retry_if fn = (n, fn n))"
proof (intro conjI impI)
  show "fst (retry retry_if fn) \<le> MAX_RETRIES"
    using tenacity_retry_attempts[of 1 MAX_RETRIES retry_if fn]
    by (simp add: retry_def MAX_RETRIES_def)
next
  assume a: "(\<forall>k. 1 \<le> k \<and> k < n \<longrightarrow> fails_transiently retry_if fn k) \<and> 1 \<le> n \<and> n \<le> 7 \<and>
    (case fn n of Inr v \<Rightarrow> True | Inl e \<Rightarrow> \<not> retry_if e \<or> n = 7)"
  then have "tenacity_retry 7 retry_if fn 1 = tenacity_retry 7 retry_if fn n"
    by (intro tenacity_retry_skip) auto
  also have "\<dots> = (n, fn n)"
    using a by (intro tenacity_retry_stop) (auto split: sum.splits)
  finally show "retry retry_if fn = (n, fn n)" by (simp add: retry_def MAX_RETRIES_def)
qed

lemma tenacity_retry_default_skip:
  assumes "\<forall>j. a \<le> j \<and> j < k \<longrightarrow> isl (fn j)" and "a \<le> k"
  shows "tenacity_retry_default fn a = tenacity_retry_default fn k"
  using assms
proof (induction "k - a" arbitrary: a)
  case 0
  then show ?case by simp
next
  case (Suc d)
  then have lt: "a < k" and "isl (fn a)" by auto
  then obtain e where e: "fn a = Inl e" by (cases "fn a") auto
  have "tenacity_retry_default fn a = tenacity_retry_default fn (a + 1)"
    using e by (subst tenacity_retry_default.simps) (simp add: retry_always_def)
  also have "\<dots> = tenacity_retry_default fn k"
    using Suc by (intro Suc.hyps(1)) auto
  finally show ?case .
qed

lemma retry_bare_returns:
  assumes "\<forall>j. 1 \<le> j \<and> j < k \<longrightarrow> isl (fn j)" and "1 \<le> k" and "fn k = Inr v"
  shows "retry_bare fn = Some (k, Inr v)"
proof -
  have "retry_bare fn = tenacity_retry_default fn k"
    unfolding retry_bare_def by (rule tenacity_retry_default_skip[OF assms(1) assms(2)])
  also have "\<dots> = Some (k, Inr v)"
    using assms(3) by (subst tenacity_retry_default.simps) simp
  finally show ?thesis .
qed

text \<open>
  Without a stop the bare wrapper goes on after the seventh attempt: a call that raises
  on its first seven attempts and returns on the eighth returns, after eight attempts.
\<close>

lemma retry_bare_eighth_attempt:
  "retry_bare (\<lambda>k. if k < 8 then Inl (ClientError ''SlowDown'') else Inr v) = Some (8, Inr v)"
  by (rule retry_bare_returns) auto

text \<open>
  C3 (amended). Where the wrapper is given a predicate, as on \<^verbatim>\<open>get_file\<close> and
  \<^verbatim>\<open>exists\<close> of the HTTP interface (the predicate accepts the HTTP server errors), it
  calls the wrapped function at most 7 times. A call that raises a server error on the
  attempts 1 to 6 and returns \<open>v\<close> on attempt 7 returns \<open>v\<close>. A call that raises a server
  error on all of the attempts 1 to 7 raises the exception of attempt 7. Any other
  exception, raised on attempt \<open>n\<close> after server errors only, leaves the wrapper at
  once: \<open>n\<close> attempts were made and no further one. The bare wrapper of the cloud
  interfaces has no predicate and goes on after every exception: a call that raises on
  its attempts before \<open>m\<close> (whatever it raises) and returns \<open>w\<close> on attempt \<open>m\<close>, with
  \<open>m\<close> at most 7, returns \<open>w\<close>.
\<close>

theorem retry_budget_with_predicate:
  "fst (retry retry_if_HTTPServerError fn) \<le> MAX_RETRIES \<and> MAX_RETRIES = 7 \<and>
   ((\<forall>k. 1 \<le> k \<and> k \<le> 6 \<longrightarrow> fails_transiently retry_if_HTTPServerError fn k) \<and> fn 7 = Inr v
      \<longrightarrow> retry retry_if_HTTPServerError fn = (7, Inr v)) \<and>
   ((\<forall>k. 1 \<le> k \<and> k \<le> 7 \<longrightarrow> fails_transiently retry_if_HTTPServerError fn k) \<and> fn 7 = Inl e
      \<longrightarrow> retry retry_if_HTTPServerError fn = (7, Inl e)) \<and>
   (1 \<le> n \<and> n \<le> 7 \<and>
    (\<forall>k. 1 \<le> k \<and> k < n \<longrightarrow> fails_transiently retry_if_HTTPServerError fn k) \<and>
    fn n = Inl e' \<and> \<not> retry_if_HTTPServerError e'
      \<longrightarrow> retry retry_if_HTTPServerError fn = (n, Inl e')) \<and>
   (1 \<le> m \<and> m \<le> 7 \<and> (\<forall>k. 1 \<le> k \<and> k < m \<longrightarrow> isl (g k)) \<and> g m = Inr w
      \<longrightarrow> retry_bare g = Some (m, Inr w))"
proof (intro conjI impI)
  show "fst (retry retry_if_HTTPServerError fn) \<le> MAX_RETRIES"
    using retry_with_predicate[of retry_if_HTTPServerError fn] by blast
next
  show "MAX_RETRIES = 7" by (simp add: MAX_RETRIES_def)
next
  assume "(\<forall>k. 1 \<le> k \<and> k \<le> 6 \<longrightarrow> fails_transiently retry_if_HTTPServerError fn k) \<and> fn 7 = Inr v"
  then show "retry retry_if_HTTPServerError fn = (7, Inr v)"
    using retry_with_predicate[of retry_if_HTTPServerError fn 7] by simp
next
  assume "(\<forall>k. 1 \<le> k \<and> k \<le> 7 \<longrightarrow> fails_transiently retry_if_HTTPServerError fn k) \<and> fn 7 = Inl e"
  then show "retry retry_if_HTTPServerError fn = (7, Inl e)"
    using retry_with_predicate[of retry_if_HTTPServerError fn 7] by simp
next
  assume "1 \<le> n \<and> n \<le> 7 \<and>
    (\<forall>k. 1 \<le> k \<and> k < n \<longrightarrow> fails_transiently retry_if_HTTPServerError fn k) \<and>
    fn n = Inl e' \<and> \<not> retry_if_HTTPServerError e'"
  then show "retry retry_if_HTTPServerError fn = (n, Inl e')"
    using retry_with_predicate[of retry_if_HTTPServerError fn n] by simp
next
  assume "1 \<le> m \<and> m \<le> 7 \<and> (\<forall>k. 1 \<le> k \<and> k < m \<longrightarrow> isl (g k)) \<and> g m = Inr w"
  then show "retry_bare g = Some (m, Inr w)"
    by (intro retry_bare_returns) auto
qed

text \<open>
  The cases at the predicate of the HTTP interface: six 503 answers and then data; seven
  503 answers; two 503 answers and then a 400. The bare wrapper: a refusal and then data.
\<close>

theorem retry_budget_with_predicate_witness:
  "retry retry_if_HTTPServerError (flaky 7) = (7, Inr ''data'') \<and>
   retry retry_if_HTTPServerError (flaky 8) = (7, Inl (HTTPError (HTTPServerError 503))) \<and>
   retry retry_if_HTTPServerError
       (\<lambda>k. if k < 3 then flaky 8 k else Inl (HTTPError (HTTPClientError 400)))
     = (3, Inl (HTTPError (HTTPClientError 400))) \<and>
   retry_bare (\<lambda>k. if k < 2 then Inl (ClientError ''AccessDenied'') else Inr ''data'')
     = Some (2, Inr ''data'')"
  using retry_budget_with_predicate[of "flaky 7" "''data''" IOError 1 IOError 2
       "\<lambda>k. if k < 2 then Inl (ClientError ''AccessDenied'') else Inr ''data''" "''data''"]
    retry_budget_with_predicate[of "flaky 8" "''x''" "HTTPError (HTTPServerError 503)" 1 IOError 2
       "\<lambda>k. if k < 2 then Inl (ClientError ''AccessDenied'') else Inr ''data''" "''data''"]
    retry_budget_with_predicate[of
       "\<lambda>k. if k < 3 then flaky 8 k else Inl (HTTPError (HTTPClientError 400))" "''x''" IOError
        3 "HTTPError (HTTPClientError 400)" 2
       "\<lambda>k. if k < 2 then Inl (ClientError ''AccessDenied'') else Inr ''data''" "''data''"]
  by (simp add: fails_transiently_def flaky_def)

text \<open>
  C3 fails as stated: \<^verbatim>\<open>get_file\<close> of the S3 interface, for an object the service
  refuses once with the client error \<^verbatim>\<open>AccessDenied\<close> and serves afterwards. The
  error does not reach the caller: a second attempt is made and its content returned.
\<close>

theorem s3_get_file_retries_client_error_counterexample:
  "S3Interface_get_file toy_codec
     \<lparr>s3_objects = [(''x'', \<lparr>Body = ''data'', ContentEncoding = None\<rparr>)],
      s3_fault = (\<lambda>k key. if k < 2 then Some (ClientError ''AccessDenied'') else None),
      s3_max_keys = 1000\<rparr>
     s3_layer ''x'' = Some (2, Inr (Some ''data''))"
proof -
  let ?C = "\<lparr>s3_objects = [(''x'', \<lparr>Body = ''data'', ContentEncoding = None\<rparr>)],
             s3_fault = (\<lambda>k key. if k < (2::nat) then Some (ClientError ''AccessDenied'') else None),
             s3_max_keys = 1000\<rparr>"
  have first: "S3_get_file_attempt toy_codec ?C s3_layer ''x'' 1
                 = Inl (ClientError ''AccessDenied'')"
    by (simp add: S3_get_file_attempt_def s3_get_object_def)
  have second: "S3_get_file_attempt toy_codec ?C s3_layer ''x'' 2 = Inr (Some ''data'')"
    by (simp add: S3_get_file_attempt_def s3_get_object_def S3Interface_get_path_to_file_def
          s3_layer_def os_path_join_def join2_def toy_codec_def truthy_def)
  have "isl (S3_get_file_attempt toy_codec ?C s3_layer ''x'' j)" if "1 \<le> j \<and> j < 2" for j
  proof -
    from that have "j = 1" by simp
    with first show ?thesis by simp
  qed
  then show ?thesis
    unfolding S3Interface_get_file_def
    by (intro retry_bare_returns[where k = 2]) (simp_all add: second)
qed

subsection \<open>Unsupported operations of the HTTP interface\<close>

text \<open>
  C9. On the HTTP interface \<^verbatim>\<open>put_file\<close>, \<^verbatim>\<open>delete_file\<close> and \<^verbatim>\<open>list_files\<close>
  raise \<^verbatim>\<open>NotImplementedError\<close> for all arguments. No request is sent: the count of
  requests of the connection is the one before the call, and no retry wrapper is around
  the call.
\<close>

theorem http_unsupported_operations:
  "HttpInterface_put_file C P file_path data content_type compress cache_control sent
     = (Inl NotImplementedError, sent) \<and>
   HttpInterface_delete_file C P file_path sent = (Inl NotImplementedError, sent) \<and>
   HttpInterface_list_files C P pfx flat sent = (Inl NotImplementedError, sent)"
  by (simp add: HttpInterface_put_file_def HttpInterface_delete_file_def
        HttpInterface_list_files_def)

subsection \<open>Reading a path that does not exist\<close>

lemma retry_first:
  "(case fn 1 of Inr v \<Rightarrow> True | Inl e \<Rightarrow> \<not> retry_if e) \<Longrightarrow> retry retry_if fn = (1, fn 1)"
  unfolding retry_def
  by (subst tenacity_retry.simps) (auto split: sum.splits)

text \<open>
  C8. A single \<^verbatim>\<open>get_file\<close> of the HTTP interface for a path the server answers with
  404 raises \<^verbatim>\<open>NotFound\<close>, after one attempt; it does not return \<^verbatim>\<open>None\<close>.
\<close>

theorem http_get_file_not_found:
  "HttpInterface_get_file (status_server (\<lambda>key. 404)) http_layer ''missing'' 0 0
     = (Inl (HTTPError NotFound), 1)"
  by (simp add: HttpInterface_get_file_def retry_first get_file_attempt_def conn_request_def
        conn_get_response_def status_server_def from_http_status_def)

lemma http_exists_not_found:
  "HttpInterface_exists (status_server (\<lambda>key. 404)) http_layer ''missing'' 0 0 = (Inr False, 1)"
  by (simp add: HttpInterface_exists_def retry_first exists_attempt_def conn_request_def
        conn_get_response_def status_server_def from_http_status_def)

subsection \<open>Writing and reading back\<close>

lemma exists_update_gz:
  "os_path_exists (AList.update p d fs) (p @ ''.gz'') = os_path_exists fs (p @ ''.gz'')"
proof -
  have "\<not> prefix (as_directory (p @ ''.gz'')) p"
    by (auto simp: as_directory_def dest!: prefix_length_le)
  then show ?thesis
    by (auto simp: os_path_exists_def os_path_isfile_def os_path_isdir_def list_ex_iff
          AList.update_conv' AList.dom_update)
qed

lemma isfile_update: "os_path_isfile (AList.update p d fs) p"
  by (simp add: os_path_isfile_def AList.update_conv')

lemma open_rb_update: "open_rb (AList.update p d fs) p = Inr d"
  by (simp add: open_rb_def AList.update_conv')

lemma put_file_Inr:
  "FileInterface_put_file fs P file_path z content_type compress cache_control = Inr fs' \<Longrightarrow>
   fs' = AList.update (if truthy compress then FileInterface_get_path_to_file P file_path @ ''.gz''
                       else FileInterface_get_path_to_file P file_path) z fs"
  by (auto simp: FileInterface_put_file_def open_wb_def Let_def
           split: sum.splits if_splits py_error.splits)

text \<open>
  C7 (amended). On the file system: when \<^verbatim>\<open>put_file\<close> of the facade (no threads)
  returns, the codec decodes what it encoded (as gzip when the write was compressed,
  unchanged when it was not), and an uncompressed write meets no \<^verbatim>\<open>.gz\<close> sibling of
  the path, then \<^verbatim>\<open>get_file\<close> returns the content written.
\<close>

theorem put_get_round_trip:
  assumes put: "Storage_put_file K (\<lambda>s. FileInterface_put_file s P) fs file_path data
                  content_type compress cache_control = Inr fs'"
    and codec: "\<And>z. compression_compress K data compress = Inr z \<Longrightarrow>
                  compression_decompress K z (if truthy compress then Some ''gzip'' else None)
                    = Inr data"
    and sibling: "truthy compress \<or>
                  \<not> os_path_exists fs (FileInterface_get_path_to_file P file_path @ ''.gz'')"
  shows "FileInterface_get_file K fs' P file_path = Inr (Some data)"
proof -
  let ?p = "FileInterface_get_path_to_file P file_path"
  from put obtain z where z: "compression_compress K data compress = Inr z"
    and w: "FileInterface_put_file fs P file_path z content_type compress cache_control = Inr fs'"
    by (auto simp: Storage_put_file_def split: sum.splits)
  note fs' = put_file_Inr[OF w]
  show ?thesis
  proof (cases "truthy compress")
    case True
    then have "os_path_exists fs' (?p @ ''.gz'')"
      using fs' by (simp add: os_path_exists_def isfile_update)
    then show ?thesis
      using True fs' codec[OF z] by (simp add: FileInterface_get_file_def open_rb_update)
  next
    case False
    then have "\<not> os_path_exists fs' (?p @ ''.gz'')"
      using fs' sibling by (simp add: exists_update_gz)
    then show ?thesis
      using False fs' codec[OF z] by (simp add: FileInterface_get_file_def open_rb_update)
  qed
qed

theorem put_get_round_trip_witness:
  "Storage_put_file toy_codec (\<lambda>s. FileInterface_put_file s file_layer) [] ''x'' ''new''
      None (Some ''gzip'') None = Inr [(''/r/x.gz'', ''Znew'')] \<and>
   FileInterface_get_file toy_codec [(''/r/x.gz'', ''Znew'')] file_layer ''x'' = Inr (Some ''new'') \<and>
   Storage_put_file toy_codec (\<lambda>s. FileInterface_put_file s file_layer) [(''/r/y'', ''old'')]
      ''y'' ''new'' None None None = Inr [(''/r/y'', ''new'')] \<and>
   FileInterface_get_file toy_codec [(''/r/y'', ''new'')] file_layer ''y'' = Inr (Some ''new'')"
proof -
  have p1: "Storage_put_file toy_codec (\<lambda>s. FileInterface_put_file s file_layer) [] ''x'' ''new''
      None (Some ''gzip'') None = Inr [(''/r/x.gz'', ''Znew'')]"
    by (simp add: Storage_put_file_def FileInterface_put_file_def toy_codec_def truthy_def
          file_layer_def FileInterface_get_path_to_file_def os_path_join_def join2_def
          mkdir_def os_path_dirname_def open_wb_def os_path_isdir_def)
  have p2: "Storage_put_file toy_codec (\<lambda>s. FileInterface_put_file s file_layer)
      [(''/r/y'', ''old'')] ''y'' ''new'' None None None = Inr [(''/r/y'', ''new'')]"
    by (simp add: Storage_put_file_def FileInterface_put_file_def toy_codec_def truthy_def
          file_layer_def FileInterface_get_path_to_file_def os_path_join_def join2_def
          mkdir_def os_path_dirname_def open_wb_def os_path_isdir_def as_directory_def)
  have c1: "\<And>z. compression_compress toy_codec ''new'' (Some ''gzip'') = Inr z \<Longrightarrow>
      compression_decompress toy_codec z (if truthy (Some ''gzip'') then Some ''gzip'' else None)
        = Inr ''new''"
    by (auto simp: toy_codec_def truthy_def)
  have c2: "\<And>z. compression_compress toy_codec ''new'' None = Inr z \<Longrightarrow>
      compression_decompress toy_codec z (if truthy None then Some ''gzip'' else None)
        = Inr ''new''"
    by (auto simp: toy_codec_def truthy_def)
  have s2: "truthy None \<or>
      \<not> os_path_exists [(''/r/y'', ''old'')] (FileInterface_get_path_to_file file_layer ''y'' @ ''.gz'')"
    by (simp add: os_path_exists_def os_path_isfile_def os_path_isdir_def as_directory_def
          file_layer_def FileInterface_get_path_to_file_def os_path_join_def join2_def)
  show ?thesis
    using p1 p2 put_get_round_trip[OF p1 c1] put_get_round_trip[OF p2 c2 s2]
    by (simp add: truthy_def)
qed

text \<open>
  C7 fails as stated: a compressed write of \<open>old\<close>, then an uncompressed write of
  \<open>new\<close> to the same path; the read prefers the \<^verbatim>\<open>.gz\<close> file and returns \<open>old\<close>.
\<close>

theorem stale_compressed_sibling_counterexample:
  "Storage_put_file toy_codec (\<lambda>s. FileInterface_put_file s file_layer) [] ''x'' ''old''
      None (Some ''gzip'') None = Inr [(''/r/x.gz'', ''Zold'')] \<and>
   Storage_put_file toy_codec (\<lambda>s. FileInterface_put_file s file_layer) [(''/r/x.gz'', ''Zold'')]
      ''x'' ''new'' None None None = Inr [(''/r/x.gz'', ''Zold''), (''/r/x'', ''new'')] \<and>
   FileInterface_get_file toy_codec [(''/r/x.gz'', ''Zold''), (''/r/x'', ''new'')] file_layer ''x''
     = Inr (Some ''old'')"
  by (simp add: Storage_put_file_def FileInterface_put_file_def toy_codec_def truthy_def
        file_layer_def FileInterface_get_path_to_file_def os_path_join_def join2_def
        mkdir_def os_path_dirname_def open_wb_def os_path_isdir_def as_directory_def
        FileInterface_get_file_def os_path_exists_def os_path_isfile_def open_rb_def)

subsection \<open>Deleting next to a compressed sibling\<close>

text \<open>
  C10. When \<open>name\<close> and \<open>name.gz\<close> are both files, \<^verbatim>\<open>delete_file(name)\<close> removes
  the file \<open>name\<close> only: \<open>name.gz\<close> keeps its content and \<^verbatim>\<open>exists(name)\<close> is still
  true.
\<close>

theorem delete_leaves_compressed_sibling:
  assumes "os_path_isfile fs (FileInterface_get_path_to_file P name)"
    and "os_path_isfile fs (FileInterface_get_path_to_file P name @ ''.gz'')"
  shows "FileInterface_delete_file fs P name
           = Inr (AList.delete (FileInterface_get_path_to_file P name) fs) \<and>
         \<not> os_path_isfile (AList.delete (FileInterface_get_path_to_file P name) fs)
             (FileInterface_get_path_to_file P name) \<and>
         map_of (AList.delete (FileInterface_get_path_to_file P name) fs)
             (FileInterface_get_path_to_file P name @ ''.gz'')
           = map_of fs (FileInterface_get_path_to_file P name @ ''.gz'') \<and>
         FileInterface_exists (AList.delete (FileInterface_get_path_to_file P name) fs) P name"
  using assms
  by (auto simp: FileInterface_delete_file_def FileInterface_exists_def os_path_exists_def
        os_remove_def os_path_isfile_def Let_def AList.delete_conv')

theorem delete_leaves_compressed_sibling_witness:
  "FileInterface_delete_file [(''/r/n'', ''1''), (''/r/n.gz'', ''Z1'')] file_layer ''n''
     = Inr [(''/r/n.gz'', ''Z1'')] \<and>
   FileInterface_exists [(''/r/n.gz'', ''Z1'')] file_layer ''n''"
proof -
  have p: "FileInterface_get_path_to_file file_layer ''n'' = ''/r/n''"
    by (simp add: file_layer_def FileInterface_get_path_to_file_def os_path_join_def join2_def)
  have a: "os_path_isfile [(''/r/n'', ''1''), (''/r/n.gz'', ''Z1'')]
             (FileInterface_get_path_to_file file_layer ''n'')"
    by (simp add: p os_path_isfile_def)
  have b: "os_path_isfile [(''/r/n'', ''1''), (''/r/n.gz'', ''Z1'')]
             (FileInterface_get_path_to_file file_layer ''n'' @ ''.gz'')"
    by (simp add: p os_path_isfile_def)
  show ?thesis
    using delete_leaves_compressed_sibling[OF a b] by (simp add: p AList.delete_eq)
qed

subsection \<open>The radix sort sorts\<close>

lemma collect_map_Inr_id: "collect (map Inr vs) = Inr vs"
  by (induction vs) auto

lemma collect_Inr: "collect rs = Inr vs \<longleftrightarrow> rs = map Inr vs"
proof
  show "collect rs = Inr vs \<Longrightarrow> rs = map Inr vs"
    by (induction rs arbitrary: vs) (auto split: sum.splits)
qed (simp add: collect_map_Inr_id)

lemma collect_map_Inr:
  assumes "collect (map f xs) = Inr vs"
  shows "length vs = length xs" and "\<And>j. j < length xs \<Longrightarrow> f (xs ! j) = Inr (vs ! j)"
proof -
  from assms have eq: "map f xs = map Inr vs" by (simp add: collect_Inr)
  then show "length vs = length xs" by (metis length_map)
  fix j assume "j < length xs"
  with eq show "f (xs ! j) = Inr (vs ! j)"
    by (metis length_map nth_map)
qed

lemma collect_map_total:
  "(\<And>x. x \<in> set xs \<Longrightarrow> \<exists>v. f x = Inr v) \<Longrightarrow> \<exists>vs. collect (map f xs) = Inr vs"
proof (induction xs)
  case Nil
  then show ?case by simp
next
  case (Cons x xs)
  then obtain v vs where "f x = Inr v" "collect (map f xs) = Inr vs"
    by (meson list.set_intros)
  then show ?case by simp
qed

lemma less_common_prefix:
  fixes a b :: "'a::linorder"
  shows "a < b \<Longrightarrow> xs @ a # ys < xs @ b # zs"
  by (induction xs) auto

lemma prefix_le_list:
  fixes xs :: "'a::linorder list"
  shows "xs \<le> xs @ ys"
proof (induction xs)
  case Nil
  show ?case by (cases ys) (auto simp: list_le_def)
next
  case (Cons x xs)
  then show ?case by (auto simp: list_le_def)
qed

lemma sorted_concat_buckets:
  fixes bs :: "'a::linorder list list"
  assumes "\<And>j. j < length bs \<Longrightarrow> sorted (bs ! j)"
    and "\<And>j k x y. j < k \<Longrightarrow> k < length bs \<Longrightarrow> x \<in> set (bs ! j) \<Longrightarrow> y \<in> set (bs ! k) \<Longrightarrow> x \<le> y"
  shows "sorted (concat bs)"
  using assms
proof (induction bs)
  case Nil
  then show ?case by simp
next
  case (Cons b bs)
  have 1: "sorted b" using Cons.prems(1)[of 0] by simp
  have 2: "sorted (concat bs)"
  proof (rule Cons.IH)
    fix j assume "j < length bs"
    then show "sorted (bs ! j)" using Cons.prems(1)[of "Suc j"] by simp
  next
    fix j k x y assume "j < k" "k < length bs" "x \<in> set (bs ! j)" "y \<in> set (bs ! k)"
    then show "x \<le> y" using Cons.prems(2)[of "Suc j" "Suc k" x y] by simp
  qed
  have 3: "x \<le> y" if "x \<in> set b" "y \<in> set (concat bs)" for x y
  proof -
    from that(2) obtain b' where "b' \<in> set bs" "y \<in> set b'" by auto
    then obtain k where "k < length bs" "y \<in> set (bs ! k)"
      by (metis in_set_conv_nth)
    then show ?thesis using Cons.prems(2)[of 0 "Suc k" x y] that(1) by simp
  qed
  from 1 2 3 show ?case by (auto simp: sorted_append)
qed

lemma mset_buckets:
  "distinct cs \<Longrightarrow>
   mset (concat (map (\<lambda>c. filter (\<lambda>s. Q s \<and> f s = c) L) cs))
     = mset (filter (\<lambda>s. Q s \<and> f s \<in> set cs) L)"
proof (induction cs)
  case Nil
  then show ?case by simp
next
  case (Cons c cs)
  have "mset (filter (\<lambda>s. Q s \<and> f s = c) L) + mset (filter (\<lambda>s. Q s \<and> f s \<in> set cs) L)
        = mset (filter (\<lambda>s. Q s \<and> (f s = c \<or> f s \<in> set cs)) L)"
    using Cons.prems by (induction L) auto
  with Cons show ?case by simp
qed


lemma sorted_all_le:
  fixes xs :: "'a::linorder list"
  shows "(\<And>x y. x \<in> set xs \<Longrightarrow> y \<in> set xs \<Longrightarrow> x \<le> y) \<Longrightarrow> sorted xs"
  by (induction xs) auto

lemma mset_concat_pointwise:
  "list_all2 (\<lambda>a b. mset a = mset b) xs ys \<Longrightarrow> mset (concat xs) = mset (concat ys)"
  by (induction rule: list_all2_induct) auto

lemma radix_sort_correct:
  "radix_sort L i = Inr out \<Longrightarrow> (\<forall>s\<in>set L. \<forall>t\<in>set L. take i s = take i t) \<Longrightarrow>
   sorted out \<and> mset out = mset L"
proof (induction L i arbitrary: out rule: radix_sort.induct)
  case (1 L i)
  show ?case
  proof (cases "length L \<le> 1")
    case True
    with "1.prems"(1) have "out = L" by (simp add: radix_sort.simps[of L i])
    moreover have "sorted L" using True by (cases L) auto
    ultimately show ?thesis by simp
  next
    case False
    let ?B = "\<lambda>c. filter (\<lambda>s. i < length s \<and> (of_char (s ! i) :: nat) = c) L"
    let ?D = "filter (\<lambda>s. i \<ge> length s) L"
    from "1.prems"(1) False
    have no: "\<not> list_ex (\<lambda>s. i < length s \<and> 255 \<le> (of_char (s ! i) :: nat)) L"
      by (auto simp: radix_sort.simps[of L i] split: if_splits)
    from "1.prems"(1) False no obtain bs
      where bs: "collect (map (\<lambda>c. radix_sort (?B c) (i + 1)) [0..<255]) = Inr bs"
        and out: "out = ?D @ concat bs"
      by (auto simp: radix_sort.simps[of L i] split: sum.splits)
    from collect_map_Inr[OF bs]
    have len: "length bs = 255"
      and each: "\<And>c. c < 255 \<Longrightarrow> radix_sort (?B c) (i + 1) = Inr (bs ! c)"
      by auto
    have agree0: "take i s = take i t" if "s \<in> set L" "t \<in> set L" for s t
      using "1.prems"(2) that by blast
    have agree: "\<forall>s\<in>set (?B c). \<forall>t\<in>set (?B c). take (i + 1) s = take (i + 1) t" for c
    proof (intro ballI)
      fix s t assume s: "s \<in> set (?B c)" and t: "t \<in> set (?B c)"
      then have "take i s = take i t" by (intro agree0) simp_all
      moreover have "s ! i = t ! i"
      proof -
        from s t have "(of_char (s ! i) :: nat) = of_char (t ! i)" by simp
        then show ?thesis by simp
      qed
      ultimately show "take (i + 1) s = take (i + 1) t"
        using s t by (simp add: take_Suc_conv_app_nth)
    qed
    have ih: "sorted (bs ! c) \<and> mset (bs ! c) = mset (?B c)" if "c < 255" for c
      using "1.IH"[OF False no _ each[OF that] agree] that by simp
    have setb: "set (bs ! c) = set (?B c)" if "c < 255" for c
      using ih[OF that] by (metis set_mset_mset)
    have cross: "x \<le> y"
      if "j < k" "k < length bs" "x \<in> set (bs ! j)" "y \<in> set (bs ! k)" for j k x y
    proof -
      from that len have x: "x \<in> set (?B j)" and y: "y \<in> set (?B k)"
        using setb[of j] setb[of k] by auto
      then have lx: "i < length x" and ly: "i < length y"
        and cx: "(of_char (x ! i) :: nat) = j" and cy: "(of_char (y ! i) :: nat) = k"
        and xL: "x \<in> set L" and yL: "y \<in> set L"
        by auto
      have tk: "take i x = take i y" using xL yL by (rule agree0)
      have "x ! i < y ! i" using cx cy that(1) by (simp add: less_char_def)
      then have "take i x @ x ! i # drop (Suc i) x < take i x @ y ! i # drop (Suc i) y"
        by (rule less_common_prefix)
      then have "x < y"
        using id_take_nth_drop[OF lx] id_take_nth_drop[OF ly] tk by simp
      then show ?thesis by simp
    qed
    have sorted_bs: "sorted (concat bs)"
      using ih len cross by (intro sorted_concat_buckets) auto
    have same_done: "s = t" if "s \<in> set ?D" "t \<in> set ?D" for s t
    proof -
      from that have "take i s = take i t" by (intro agree0) simp_all
      with that show ?thesis by simp
    qed
    have sorted_done: "sorted ?D"
      by (rule sorted_all_le) (use same_done in blast)
    have done_le: "s \<le> y" if "s \<in> set ?D" "y \<in> set (concat bs)" for s y
    proof -
      from that(2) obtain b where "b \<in> set bs" "y \<in> set b" by auto
      then obtain c where "c < 255" "y \<in> set (bs ! c)"
        using len by (metis in_set_conv_nth)
      then have yL: "y \<in> set L" using setb[of c] by auto
      from that(1) have sL: "s \<in> set L" and ls: "length s \<le> i" by auto
      have "take i s = take i y" using sL yL by (rule agree0)
      with ls have "s = take i y" by simp
      then have "y = s @ drop i y" by (metis append_take_drop_id)
      then show ?thesis using prefix_le_list[of s "drop i y"] by simp
    qed
    have sorted_out: "sorted out"
      using out sorted_done sorted_bs done_le by (auto simp: sorted_append)
    have "list_all2 (\<lambda>a b. mset a = mset b) bs (map ?B [0..<255])"
      using ih len by (auto simp: list_all2_conv_all_nth)
    then have "mset (concat bs) = mset (concat (map ?B [0..<255]))"
      by (rule mset_concat_pointwise)
    also have "\<dots> = mset (filter (\<lambda>s. i < length s \<and> (of_char (s ! i) :: nat) \<in> set [0..<255]) L)"
      by (rule mset_buckets) simp
    also have "\<dots> = mset (filter (\<lambda>s. i < length s) L)"
      using no by (intro arg_cong[where f = mset] filter_cong) (auto simp: list_ex_iff)
    finally have "mset out = mset (filter (\<lambda>s. i \<ge> length s) L) + mset (filter (\<lambda>s. i < length s) L)"
      using out by simp
    also have "\<dots> = mset L"
      by (induction L) auto
    finally show ?thesis using sorted_out by simp
  qed
qed

lemma radix_sort_total:
  "(\<forall>s\<in>set L. \<forall>c\<in>set s. (of_char c :: nat) < 255) \<Longrightarrow> \<exists>out. radix_sort L i = Inr out"
proof (induction L i rule: radix_sort.induct)
  case (1 L i)
  show ?case
  proof (cases "length L \<le> 1")
    case True
    then show ?thesis by (simp add: radix_sort.simps[of L i])
  next
    case False
    have no: "\<not> list_ex (\<lambda>s. i < length s \<and> 255 \<le> (of_char (s ! i) :: nat)) L"
    proof -
      have "(of_char (s ! i) :: nat) < 255" if "s \<in> set L" "i < length s" for s
        using "1.prems" that nth_mem[OF that(2)] by blast
      then show ?thesis by (fastforce simp: list_ex_iff)
    qed
    have "\<exists>v. radix_sort (filter (\<lambda>s. i < length s \<and> (of_char (s ! i) :: nat) = c) L) (i + 1) = Inr v"
      if "c \<in> set [0..<255]" for c
      using "1.IH"[OF False no that] "1.prems" by auto
    then obtain bs where
      "collect (map (\<lambda>c. radix_sort (filter (\<lambda>s. i < length s \<and> (of_char (s ! i) :: nat) = c) L) (i + 1))
          [0..<255]) = Inr bs"
      using collect_map_total[of "[0..<255]"
          "\<lambda>c. radix_sort (filter (\<lambda>s. i < length s \<and> (of_char (s ! i) :: nat) = c) L) (i + 1)"]
      by blast
    then show ?thesis using False no by (simp add: radix_sort.simps[of L i])
  qed
qed

lemma radix_sort_is_sort:
  assumes "\<forall>s\<in>set L. \<forall>c\<in>set s. (of_char c :: nat) < 255"
  shows "radix_sort L 0 = Inr (sort L)"
proof -
  from radix_sort_total[OF assms] obtain out where out: "radix_sort L 0 = Inr out" by blast
  from radix_sort_correct[OF out] have "sorted out" "mset out = mset L" by auto
  then have "sort L = out" by (intro properties_for_sort) auto
  with out show ?thesis by simp
qed


subsection \<open>Order of a listing\<close>

lemma set_stripgz: "set (stripgz f) \<subseteq> set f"
  by (auto simp: stripgz_def os_path_splitext_def Let_def dest: in_set_takeD split: if_splits)

text \<open>
  C4 (amended). On the file system, when every character of every collected name has a
  code below 255, \<^verbatim>\<open>list_files\<close> returns the collected names, each without its \<^verbatim>\<open>.gz\<close>
  suffix, in ascending lexicographic order of their characters' codes (\<open>sort\<close> of the
  list); so two states that hold the same names list alike, whatever the order in which
  the operating system enumerates them. (The S3 and Google Cloud Storage interfaces do
  not sort: see the counterexample.)
\<close>

theorem file_list_files_sorted:
  assumes "\<forall>f\<in>set (FileInterface_filenames fs P pfx flat). \<forall>c\<in>set f. (of_char c :: nat) < 255"
  shows "FileInterface_list_files fs P pfx flat
           = Inr (sort (map stripgz (FileInterface_filenames fs P pfx flat))) \<and>
         (mset (FileInterface_filenames fs' P pfx flat) = mset (FileInterface_filenames fs P pfx flat)
            \<longrightarrow> FileInterface_list_files fs' P pfx flat = FileInterface_list_files fs P pfx flat)"
proof -
  have ok: "\<forall>s\<in>set (map stripgz (FileInterface_filenames g P pfx flat)). \<forall>c\<in>set s. (of_char c :: nat) < 255"
    if "set (FileInterface_filenames g P pfx flat) = set (FileInterface_filenames fs P pfx flat)" for g
    using assms that set_stripgz by fastforce
  have 1: "FileInterface_list_files fs P pfx flat
           = Inr (sort (map stripgz (FileInterface_filenames fs P pfx flat)))"
    unfolding FileInterface_list_files_def by (rule radix_sort_is_sort) (rule ok, simp)
  have 2: "FileInterface_list_files fs' P pfx flat = FileInterface_list_files fs P pfx flat"
    if m: "mset (FileInterface_filenames fs' P pfx flat) = mset (FileInterface_filenames fs P pfx flat)"
  proof -
    from m have "set (FileInterface_filenames fs' P pfx flat) = set (FileInterface_filenames fs P pfx flat)"
      by (rule mset_eq_setD)
    then have "FileInterface_list_files fs' P pfx flat
           = Inr (sort (map stripgz (FileInterface_filenames fs' P pfx flat)))"
      unfolding FileInterface_list_files_def by (intro radix_sort_is_sort ok)
    moreover have "mset (map stripgz (FileInterface_filenames fs' P pfx flat))
        = mset (map stripgz (FileInterface_filenames fs P pfx flat))"
      using m by (metis mset_map)
    then have "sort (map stripgz (FileInterface_filenames fs' P pfx flat))
        = sort (map stripgz (FileInterface_filenames fs P pfx flat))"
      by (intro properties_for_sort) auto
    ultimately show ?thesis using 1 by simp
  qed
  from 1 2 show ?thesis by blast
qed

theorem file_list_files_sorted_witness:
  "FileInterface_list_files [(''/r/b'', ''1''), (''/r/a.gz'', ''2''), (''/r/ab'', ''3'')] file_layer [] False
     = Inr [''a'', ''ab'', ''b''] \<and>
   FileInterface_list_files [(''/r/ab'', ''3''), (''/r/b'', ''1''), (''/r/a.gz'', ''2'')] file_layer [] False
     = Inr [''a'', ''ab'', ''b'']"
proof -
  have f1: "FileInterface_filenames [(''/r/b'', ''1''), (''/r/a.gz'', ''2''), (''/r/ab'', ''3'')]
              file_layer [] False = [''b'', ''a.gz'', ''ab'']"
    by code_simp
  have f2: "FileInterface_filenames [(''/r/ab'', ''3''), (''/r/b'', ''1''), (''/r/a.gz'', ''2'')]
              file_layer [] False = [''ab'', ''b'', ''a.gz'']"
    by code_simp
  have s: "map stripgz [''b'', ''a.gz'', ''ab''] = [''b'', ''a'', ''ab'']"
    by code_simp
  have h: "\<forall>f\<in>set (FileInterface_filenames [(''/r/b'', ''1''), (''/r/a.gz'', ''2''), (''/r/ab'', ''3'')]
              file_layer [] False). \<forall>c\<in>set f. (of_char c :: nat) < 255"
    unfolding f1 by simp
  have so: "sort [''b'', ''a'', ''ab''] = [''a'', ''ab'', ''b'']"
    by code_simp
  show ?thesis
    using file_list_files_sorted[OF h,
        of "[(''/r/ab'', ''3''), (''/r/b'', ''1''), (''/r/a.gz'', ''2'')]"]
    unfolding f1 f2 s so by simp
qed

text \<open>
  C4 fails as stated: the S3 interface yields the keys in the order of the service's
  answer; for a bucket that answers \<open>b\<close> before \<open>a\<close> the listing is not sorted.
\<close>

theorem s3_list_files_unsorted_counterexample:
  "S3Interface_list_files (s3_of_keys [''b'', ''a'']) s3_layer [] False = Inr [''b'', ''a''] \<and>
   \<not> sorted [''b'', ''a'']"
  by code_simp

subsection \<open>Compressed and uncompressed siblings in a listing\<close>

text \<open>
  C5 (amended). Whenever \<^verbatim>\<open>list_files\<close> of the file interface returns, the listing
  holds one entry for each collected file, its name without the \<^verbatim>\<open>.gz\<close> suffix:
  a name occurs as often as there are collected files that strip to it. Nothing merges
  equal entries. So a file stored only as \<open>name.gz\<close> is listed once, as \<open>name\<close>.
\<close>

theorem file_list_files_entries:
  assumes "FileInterface_list_files fs P pfx flat = Inr out"
  shows "mset out = mset (map stripgz (FileInterface_filenames fs P pfx flat)) \<and>
         count (mset out) name
           = length (filter (\<lambda>f. stripgz f = name) (FileInterface_filenames fs P pfx flat))"
proof -
  from assms have m: "mset out = mset (map stripgz (FileInterface_filenames fs P pfx flat))"
    unfolding FileInterface_list_files_def by (auto dest: radix_sort_correct)
  have "count (mset (map stripgz xs)) name = length (filter (\<lambda>f. stripgz f = name) xs)" for xs
    by (induction xs) auto
  with m show ?thesis by simp
qed

theorem file_list_files_entries_witness:
  "FileInterface_list_files [(''/r/n.gz'', ''Z1'')] file_layer [] False = Inr [''n''] \<and>
   count (mset [''n'']) ''n'' = 1"
proof -
  have l: "FileInterface_list_files [(''/r/n.gz'', ''Z1'')] file_layer [] False = Inr [''n'']"
    by code_simp
  have f: "FileInterface_filenames [(''/r/n.gz'', ''Z1'')] file_layer [] False = [''n.gz'']"
    by code_simp
  have s: "stripgz ''n.gz'' = ''n''" by code_simp
  show ?thesis
    using file_list_files_entries[OF l, of "''n''"] l unfolding f by (simp add: s)
qed

text \<open>
  C5 fails as stated: with \<open>n.gz\<close> and its uncompressed sibling \<open>n\<close> both stored,
  the listing holds \<open>n\<close> twice.
\<close>

theorem compressed_sibling_listed_twice_counterexample:
  "FileInterface_list_files [(''/r/n.gz'', ''Z1''), (''/r/n'', ''1'')] file_layer [] False
     = Inr [''n'', ''n'']"
  by code_simp

subsection \<open>Flat and recursive listing\<close>

text \<open>
  C6 (amended). For a state that holds exactly \<open>a/b/c\<close>, \<open>a/b/d\<close> and \<open>a/e\<close>,
  \<^verbatim>\<open>list_files("a/", flat=True)\<close> yields \<open>a/e\<close> only: the files directly below the
  prefix, and no entry for the directory \<open>a/b\<close>. \<^verbatim>\<open>list_files("a/", flat=False)\<close>
  yields the three paths. This holds for the file, Google Cloud Storage and S3
  interfaces.
\<close>

theorem flat_and_recursive_listing:
  "FileInterface_list_files [(''/r/a/b/c'', x), (''/r/a/b/d'', y), (''/r/a/e'', z)] file_layer ''a/'' True
     = Inr [''a/e''] \<and>
   FileInterface_list_files [(''/r/a/b/c'', x), (''/r/a/b/d'', y), (''/r/a/e'', z)] file_layer ''a/'' False
     = Inr [''a/b/c'', ''a/b/d'', ''a/e''] \<and>
   GoogleCloudStorageInterface_list_files (gcs_of_keys [''a/b/c'', ''a/b/d'', ''a/e'']) gcs_layer ''a/'' True
     = Inr [''a/e''] \<and>
   GoogleCloudStorageInterface_list_files (gcs_of_keys [''a/b/c'', ''a/b/d'', ''a/e'']) gcs_layer ''a/'' False
     = Inr [''a/b/c'', ''a/b/d'', ''a/e''] \<and>
   S3Interface_list_files (s3_of_keys [''a/b/c'', ''a/b/d'', ''a/e'']) s3_layer ''a/'' True
     = Inr [''a/e''] \<and>
   S3Interface_list_files (s3_of_keys [''a/b/c'', ''a/b/d'', ''a/e'']) s3_layer ''a/'' False
     = Inr [''a/b/c'', ''a/b/d'', ''a/e'']"
  by code_simp

text \<open>
  C6 fails as stated: the glob of the flat listing does match the directory \<open>a/b\<close>,
  but the loop skips what is not a regular file, so the listing has no entry for it.
\<close>

theorem flat_listing_skips_directories_counterexample:
  "glob_star [(''/r/a/b/c'', ''1''), (''/r/a/b/d'', ''2''), (''/r/a/e'', ''3'')] ''/r/a/''
     = [''/r/a/b'', ''/r/a/e''] \<and>
   \<not> os_path_isfile [(''/r/a/b/c'', ''1''), (''/r/a/b/d'', ''2''), (''/r/a/e'', ''3'')] ''/r/a/b'' \<and>
   FileInterface_list_files [(''/r/a/b/c'', ''1''), (''/r/a/b/d'', ''2''), (''/r/a/e'', ''3'')]
       file_layer ''a/'' True = Inr [''a/e''] \<and>
   \<not> list_ex (prefix ''a/b'') [''a/e'']"
  by code_simp

subsection \<open>The pipelined loops of the HTTP interface\<close>

lemma filename_file_result [simp]: "filename (file_result p r) = p"
  by (simp add: file_result_def split: sum.splits)

lemma send_next_request_names:
  assumes "send_next_request C available running sent = (sid', available', running', sent')"
  shows "map fst running' @ rev available' = map fst running @ rev available"
    and "running \<noteq> [] \<Longrightarrow> running' \<noteq> []"
    and "admits C \<Longrightarrow> running' = [] \<Longrightarrow> available' = []"
    and "http2 C \<Longrightarrow> length running \<le> max_streams C \<Longrightarrow> length running' \<le> max_streams C"
  using assms
  by (cases available rule: rev_cases;
      auto simp: send_next_request_def conn_request_def admits_def Let_def split: if_splits)+

lemma get_files_loop_names:
  "admits C \<Longrightarrow> (running = [] \<longrightarrow> available = []) \<Longrightarrow>
   map filename (fst (get_files_loop C P available running stream_id results sent))
     = map filename results @ map fst running @ rev available"
proof (induction C P available running stream_id results sent rule: get_files_loop.induct)
  case (1 C P available running stream_id results sent)
  show ?case
  proof (cases "running = []")
    case True
    with "1.prems" show ?thesis
      by (subst get_files_loop.simps) simp
  next
    case False
    show ?thesis
    proof (cases "stream_id \<noteq> None")
      case True
      obtain sid' av' run' sent' where
        s: "send_next_request C available running sent = (sid', av', run', sent')"
        by (metis prod_cases4)
      have inv: "run' = [] \<longrightarrow> av' = []"
        using send_next_request_names(3)[OF s "1.prems"(1)] by blast
      have "map filename (fst (get_files_loop C P av' run' sid' results sent'))
              = map filename results @ map fst run' @ rev av'"
        by (rule "1.IH"(1)[OF False True s[symmetric] refl refl "1.prems"(1) inv])
      moreover have "get_files_loop C P available running stream_id results sent
              = get_files_loop C P av' run' sid' results sent'"
        using False True s by (simp add: get_files_loop.simps[of C P available running])
      ultimately show ?thesis
        using send_next_request_names(1)[OF s] by simp
    next
      case sid: False
      obtain r sent1 where
        g: "get_files_get_response C P (fst (hd running)) (snd (hd running))
              (length (tl running)) sent = (r, sent1)"
        by (metis prod.exhaust)
      obtain sid' av' run' sent2 where
        s: "send_next_request C available (tl running) sent1 = (sid', av', run', sent2)"
        by (metis prod_cases4)
      have inv: "run' = [] \<longrightarrow> av' = []"
        using send_next_request_names(3)[OF s "1.prems"(1)] by blast
      let ?res = "results @ [file_result (fst (hd running)) (map_sum id Some r)]"
      have "map filename (fst (get_files_loop C P av' run' sid' ?res sent2))
              = map filename ?res @ map fst run' @ rev av'"
        by (rule "1.IH"(2)[OF False sid g[symmetric] s[symmetric] refl refl "1.prems"(1) inv])
      moreover have "get_files_loop C P available running stream_id results sent
              = get_files_loop C P av' run' sid' ?res sent2"
        using False sid g s by (simp add: get_files_loop.simps[of C P available running])
      moreover have "map fst running = fst (hd running) # map fst (tl running)"
        using False by (cases running) auto
      ultimately show ?thesis
        using send_next_request_names(1)[OF s] by simp
    qed
  qed
qed

lemma HttpInterface_get_files_names:
  assumes "admits C"
  shows "map filename (fst (HttpInterface_get_files C P file_paths sent)) = rev file_paths"
proof -
  obtain sid av run sent' where
    s: "send_next_request C file_paths [] sent = (sid, av, run, sent')"
    by (metis prod_cases4)
  have inv: "run = [] \<longrightarrow> av = []"
    using send_next_request_names(3)[OF s assms] by blast
  show ?thesis
    using get_files_loop_names[OF assms inv, of P sid "[]" sent'] send_next_request_names(1)[OF s] s
    by (simp add: HttpInterface_get_files_def)
qed

lemma files_exist_loop_dom:
  "files_exist_loop C P available running stream_id result sent = (Inr m, sent') \<Longrightarrow>
   set available \<union> fst ` set running \<subseteq> dom result \<Longrightarrow> dom m = dom result"
proof (induction C P available running stream_id result sent rule: files_exist_loop.induct)
  case (1 C P available running stream_id result sent)
  show ?case
  proof (cases "running = []")
    case True
    with "1.prems" show ?thesis
      by (subst (asm) files_exist_loop.simps) auto
  next
    case False
    show ?thesis
    proof (cases "stream_id \<noteq> None")
      case True
      obtain sid' av' run' sent1 where
        s: "send_next_request C available running sent = (sid', av', run', sent1)"
        by (metis prod_cases4)
      have "set (map fst run' @ rev av') = set (map fst running @ rev available)"
        using send_next_request_names(1)[OF s] by simp
      then have "set av' \<union> fst ` set run' = set available \<union> fst ` set running"
        by (simp add: Un_commute)
      then have sub: "set av' \<union> fst ` set run' \<subseteq> dom result"
        using "1.prems"(2) by simp
      have "files_exist_loop C P av' run' sid' result sent1 = (Inr m, sent')"
        using "1.prems"(1) False True s
        by (simp add: files_exist_loop.simps[of C P available running])
      then show ?thesis
        by (rule "1.IH"(1)[OF False True s[symmetric] refl refl _ sub])
    next
      case sid: False
      obtain r sent1 where
        g: "files_exist_get_response C P (fst (hd running)) (snd (hd running))
              (length (tl running)) sent = (r, sent1)"
        by (metis prod.exhaust)
      from "1.prems"(1) False sid g obtain b where b: "r = Inr b"
        by (cases r) (auto simp: files_exist_loop.simps[of C P available running])
      obtain sid' av' run' sent2 where
        s: "send_next_request C available (tl running) sent1 = (sid', av', run', sent2)"
        by (metis prod_cases4)
      let ?res = "result(fst (hd running) \<mapsto> Some b)"
      have hd_in: "fst (hd running) \<in> dom result"
        using False "1.prems"(2) by (cases running) auto
      have "set (map fst run' @ rev av') = set (map fst (tl running) @ rev available)"
        using send_next_request_names(1)[OF s] by simp
      then have eq: "set av' \<union> fst ` set run' = set available \<union> fst ` set (tl running)"
        by (simp add: Un_commute)
      have "set (tl running) \<subseteq> set running"
        using False by (cases running) auto
      then have "set available \<union> fst ` set (tl running) \<subseteq> dom result"
        using "1.prems"(2) by blast
      then have sub: "set av' \<union> fst ` set run' \<subseteq> dom ?res"
        unfolding eq by auto
      have "files_exist_loop C P av' run' sid' ?res sent2 = (Inr m, sent')"
        using "1.prems"(1) False sid g s b
        by (simp add: files_exist_loop.simps[of C P available running])
      then have "dom m = dom ?res"
        by (rule "1.IH"(2)[OF False sid g[symmetric] b s[symmetric] refl refl _ sub])
      with hd_in show ?thesis by auto
    qed
  qed
qed

lemma dom_map_of_None: "dom (map_of (map (\<lambda>p. (p, v)) ps)) = set ps"
  by (simp add: dom_map_of_conv_image_fst image_image)

lemma HttpInterface_files_exist_dom:
  assumes "HttpInterface_files_exist C P file_paths sent = (Inr m, sent')"
  shows "dom m = set file_paths"
proof -
  obtain sid av run sent1 where
    s: "send_next_request C file_paths [] sent = (sid, av, run, sent1)"
    by (metis prod_cases4)
  let ?init = "map_of (map (\<lambda>file_path. (file_path, None :: bool option)) file_paths)"
  have "set (map fst run @ rev av) = set file_paths"
    using send_next_request_names(1)[OF s] by simp
  then have "set av \<union> fst ` set run = set file_paths"
    by (simp add: Un_commute)
  then have sub: "set av \<union> fst ` set run \<subseteq> dom ?init"
    by (simp add: dom_map_of_None)
  have "files_exist_loop C P av run sid ?init sent1 = (Inr m, sent')"
    using assms s by (simp add: HttpInterface_files_exist_def)
  from files_exist_loop_dom[OF this sub] show ?thesis
    by (simp add: dom_map_of_None)
qed


text \<open>
  On a stationary server the outcome of reading one path depends neither on the count
  of requests sent nor, below the stream limit, on the streams that are open.
\<close>

lemma get_file_attempt_stationary:
  assumes "stationary C" and "http2 C \<longrightarrow> inflight < max_streams C"
  shows "fst (get_file_attempt C P p inflight s) = fst (get_file_attempt C P p 0 0)"
proof -
  have srv: "server C s ''GET'' k = server C 0 ''GET'' k" for k
    using assms(1) unfolding stationary_def by blast
  from assms(2) have "http2 C \<longrightarrow> 0 < max_streams C" by auto
  then show ?thesis
    using assms(2)
    by (auto simp: get_file_attempt_def conn_request_def conn_get_response_def Let_def srv
          split: option.splits)
qed

lemma HttpInterface_get_file_stationary:
  assumes "stationary C" and "http2 C \<longrightarrow> inflight < max_streams C"
  shows "fst (HttpInterface_get_file C P p inflight s) = fst (HttpInterface_get_file C P p 0 0)"
proof -
  from assms(2) have z: "http2 C \<longrightarrow> 0 < max_streams C" by auto
  have "(\<lambda>k. fst (get_file_attempt C P p inflight (s + (k - 1))))
          = (\<lambda>k. fst (get_file_attempt C P p 0 (0 + (k - 1))))"
    using get_file_attempt_stationary[OF assms] get_file_attempt_stationary[OF assms(1) z]
    by metis
  then show ?thesis
    by (simp add: HttpInterface_get_file_def split: prod.splits)
qed

lemma get_files_get_response_stationary:
  assumes "stationary C" and "http2 C \<longrightarrow> inflight < max_streams C"
  shows "fst (get_files_get_response C P p sid inflight s)
           = fst (get_files_get_response C P p None 0 0)"
proof -
  have r: "conn_get_response C sid s m k = conn_get_response C None 0 m k" for m k
    using assms(1) unfolding stationary_def conn_get_response_def by metis
  show ?thesis
    unfolding get_files_get_response_def r
    using HttpInterface_get_file_stationary[OF assms, of P p s]
    by (simp add: Let_def split: option.splits)
qed

lemma get_files_loop_values:
  "stationary C \<Longrightarrow> admits C \<Longrightarrow> (running = [] \<longrightarrow> available = []) \<Longrightarrow>
   (http2 C \<longrightarrow> length running \<le> max_streams C) \<Longrightarrow>
   fst (get_files_loop C P available running stream_id results sent)
     = results @ map (\<lambda>p. file_result p (map_sum id Some (fst (get_files_get_response C P p None 0 0))))
                   (map fst running @ rev available)"
proof (induction C P available running stream_id results sent rule: get_files_loop.induct)
  case (1 C P available running stream_id results sent)
  let ?item = "\<lambda>p. file_result p (map_sum id Some (fst (get_files_get_response C P p None 0 0)))"
  show ?case
  proof (cases "running = []")
    case True
    with "1.prems" show ?thesis
      by (subst get_files_loop.simps) simp
  next
    case False
    show ?thesis
    proof (cases "stream_id \<noteq> None")
      case True
      obtain sid' av' run' sent' where
        s: "send_next_request C available running sent = (sid', av', run', sent')"
        by (metis prod_cases4)
      have inv: "run' = [] \<longrightarrow> av' = []"
        using send_next_request_names(3)[OF s "1.prems"(2)] by blast
      have len: "http2 C \<longrightarrow> length run' \<le> max_streams C"
        using send_next_request_names(4)[OF s] "1.prems"(4) by blast
      have "fst (get_files_loop C P av' run' sid' results sent')
              = results @ map ?item (map fst run' @ rev av')"
        by (rule "1.IH"(1)[OF False True s[symmetric] refl refl "1.prems"(1) "1.prems"(2) inv len])
      moreover have "get_files_loop C P available running stream_id results sent
              = get_files_loop C P av' run' sid' results sent'"
        using False True s by (simp add: get_files_loop.simps[of C P available running])
      ultimately show ?thesis
        using send_next_request_names(1)[OF s] by (simp add: id_def)
    next
      case sid: False
      obtain r sent1 where
        g: "get_files_get_response C P (fst (hd running)) (snd (hd running))
              (length (tl running)) sent = (r, sent1)"
        by (metis prod.exhaust)
      obtain sid' av' run' sent2 where
        s: "send_next_request C available (tl running) sent1 = (sid', av', run', sent2)"
        by (metis prod_cases4)
      have inv: "run' = [] \<longrightarrow> av' = []"
        using send_next_request_names(3)[OF s "1.prems"(2)] by blast
      have lt: "http2 C \<longrightarrow> length (tl running) < max_streams C"
        using "1.prems"(4) False by (cases running) auto
      then have len: "http2 C \<longrightarrow> length run' \<le> max_streams C"
        using send_next_request_names(4)[OF s] by (simp add: less_imp_le)
      have r: "r = fst (get_files_get_response C P (fst (hd running)) None 0 0)"
        using get_files_get_response_stationary[OF "1.prems"(1) lt, of P "fst (hd running)"
                "snd (hd running)" sent] g by simp
      let ?res = "results @ [file_result (fst (hd running)) (map_sum id Some r)]"
      have "fst (get_files_loop C P av' run' sid' ?res sent2)
              = ?res @ map ?item (map fst run' @ rev av')"
        by (rule "1.IH"(2)[OF False sid g[symmetric] s[symmetric] refl refl
                  "1.prems"(1) "1.prems"(2) inv len])
      moreover have "get_files_loop C P available running stream_id results sent
              = get_files_loop C P av' run' sid' ?res sent2"
        using False sid g s by (simp add: get_files_loop.simps[of C P available running])
      moreover have "map fst running = fst (hd running) # map fst (tl running)"
        using False by (cases running) auto
      moreover have "map fst run' @ rev av' = map fst (tl running) @ rev available"
        by (rule send_next_request_names(1)[OF s])
      ultimately show ?thesis
        using r by (simp add: id_def)
    qed
  qed
qed

lemma HttpInterface_get_files_values:
  assumes "stationary C" and "admits C"
  shows "fst (HttpInterface_get_files C P file_paths sent)
           = map (\<lambda>p. file_result p (map_sum id Some (fst (get_files_get_response C P p None 0 0))))
               (rev file_paths)"
proof -
  obtain sid av run sent' where
    s: "send_next_request C file_paths [] sent = (sid, av, run, sent')"
    by (metis prod_cases4)
  have inv: "run = [] \<longrightarrow> av = []"
    using send_next_request_names(3)[OF s assms(2)] by blast
  have len: "http2 C \<longrightarrow> length run \<le> max_streams C"
    using send_next_request_names(4)[OF s] by simp
  show ?thesis
    using get_files_loop_values[OF assms inv len, of P sid "[]" sent']
      send_next_request_names(1)[OF s] s
    by (simp add: HttpInterface_get_files_def id_def)
qed


text \<open>
  When every \<^verbatim>\<open>HEAD\<close> is settled, no response makes \<^verbatim>\<open>files_exist\<close> raise or call
  \<^verbatim>\<open>exists\<close>, and the loop returns.
\<close>

lemma files_exist_get_response_settled:
  assumes "head_settled C P p"
  shows "\<exists>b. files_exist_get_response C P p sid inflight sent = (Inr b, sent)"
proof -
  let ?st = "status (conn_get_response C sid sent ''HEAD'' (HttpInterface_get_path_to_file P p))"
  have "?st = 403 \<or> ?st = 404 \<or> ?st < 400 \<or> 600 \<le> ?st"
    using assms unfolding head_settled_def conn_get_response_def Let_def by blast
  then show ?thesis
    by (auto simp: files_exist_get_response_def from_http_status_def Let_def)
qed

lemma files_exist_loop_returns:
  "(\<And>p. p \<in> set available \<union> fst ` set running \<Longrightarrow> head_settled C P p) \<Longrightarrow>
   \<exists>m sent'. files_exist_loop C P available running stream_id result sent = (Inr m, sent')"
proof (induction C P available running stream_id result sent rule: files_exist_loop.induct)
  case (1 C P available running stream_id result sent)
  show ?case
  proof (cases "running = []")
    case True
    then show ?thesis
      by (subst files_exist_loop.simps) simp
  next
    case False
    show ?thesis
    proof (cases "stream_id \<noteq> None")
      case True
      obtain sid' av' run' sent1 where
        s: "send_next_request C available running sent = (sid', av', run', sent1)"
        by (metis prod_cases4)
      have "set (map fst run' @ rev av') = set (map fst running @ rev available)"
        using send_next_request_names(1)[OF s] by simp
      then have eq: "set av' \<union> fst ` set run' = set available \<union> fst ` set running"
        by (simp add: Un_commute)
      have "\<exists>m sent'. files_exist_loop C P av' run' sid' result sent1 = (Inr m, sent')"
        by (rule "1.IH"(1)[OF False True s[symmetric] refl refl]) (simp only: eq "1.prems")
      moreover have "files_exist_loop C P available running stream_id result sent
              = files_exist_loop C P av' run' sid' result sent1"
        using False True s by (simp add: files_exist_loop.simps[of C P available running])
      ultimately show ?thesis by simp
    next
      case sid: False
      have hd_in: "fst (hd running) \<in> set available \<union> fst ` set running"
        using False by (cases running) auto
      obtain b where
        g: "files_exist_get_response C P (fst (hd running)) (snd (hd running))
              (length (tl running)) sent = (Inr b, sent)"
        using files_exist_get_response_settled[OF "1.prems"[OF hd_in]] by blast
      obtain sid' av' run' sent2 where
        s: "send_next_request C available (tl running) sent = (sid', av', run', sent2)"
        by (metis prod_cases4)
      let ?res = "result(fst (hd running) \<mapsto> Some b)"
      have "set (map fst run' @ rev av') = set (map fst (tl running) @ rev available)"
        using send_next_request_names(1)[OF s] by simp
      then have eq: "set av' \<union> fst ` set run' = set available \<union> fst ` set (tl running)"
        by (simp add: Un_commute)
      have tl: "set (tl running) \<subseteq> set running"
        using False by (cases running) auto
      have "\<exists>m sent'. files_exist_loop C P av' run' sid' ?res sent2 = (Inr m, sent')"
      proof (rule "1.IH"(2)[OF False sid g[symmetric] refl s[symmetric] refl refl])
        fix p assume "p \<in> set av' \<union> fst ` set run'"
        then have "p \<in> set available \<union> fst ` set running"
          unfolding eq using tl by blast
        then show "head_settled C P p" by (rule "1.prems")
      qed
      moreover have "files_exist_loop C P available running stream_id result sent
              = files_exist_loop C P av' run' sid' ?res sent2"
        using False sid g s by (simp add: files_exist_loop.simps[of C P available running])
      ultimately show ?thesis by simp
    qed
  qed
qed

lemma HttpInterface_files_exist_returns:
  assumes "\<And>p. p \<in> set file_paths \<Longrightarrow> head_settled C P p"
  shows "\<exists>m. fst (HttpInterface_files_exist C P file_paths sent) = Inr m \<and> dom m = set file_paths"
proof -
  obtain sid av run sent1 where
    s: "send_next_request C file_paths [] sent = (sid, av, run, sent1)"
    by (metis prod_cases4)
  have "set (map fst run @ rev av) = set file_paths"
    using send_next_request_names(1)[OF s] by simp
  then have eq: "set av \<union> fst ` set run = set file_paths"
    by (simp add: Un_commute)
  have "\<exists>m sent'. files_exist_loop C P av run sid
          (map_of (map (\<lambda>file_path. (file_path, None)) file_paths)) sent1 = (Inr m, sent')"
    by (rule files_exist_loop_returns) (simp only: eq assms)
  then obtain m sent' where
    "HttpInterface_files_exist C P file_paths sent = (Inr m, sent')"
    using s by (auto simp: HttpInterface_files_exist_def)
  then show ?thesis
    using HttpInterface_files_exist_dom by fastforce
qed

subsection \<open>The facade over blocks of paths\<close>

lemma mset_concat_permuted:
  "mset xss = mset yss \<Longrightarrow> mset (concat xss) = mset (concat yss)"
  by (metis mset_concat sum_mset_sum_list mset_map)

lemma Storage_get_files_names:
  assumes g: "\<And>ps. map filename (g ps) = ps"
    and sc: "n_threads \<noteq> 0 \<Longrightarrow> mset (concat (scatter file_paths n_threads)) = mset file_paths"
    and co: "n_threads \<noteq> 0 \<Longrightarrow>
               mset (completion (scatter file_paths n_threads)) = mset (scatter file_paths n_threads)"
  shows "mset (map filename (Storage_get_files n_threads scatter completion g file_paths))
           = mset file_paths"
proof (cases "n_threads = 0")
  case True
  then show ?thesis by (simp add: Storage_get_files_def g)
next
  case False
  have "map filename (concat (map g bs)) = concat bs" for bs
    by (induction bs) (simp_all add: g)
  then have "mset (map filename (Storage_get_files n_threads scatter completion g file_paths))
               = mset (concat (completion (scatter file_paths n_threads)))"
    using False by (simp add: Storage_get_files_def)
  also have "\<dots> = mset (concat (scatter file_paths n_threads))"
    by (rule mset_concat_permuted[OF co[OF False]])
  also have "\<dots> = mset file_paths"
    by (rule sc[OF False])
  finally show ?thesis .
qed

lemma dom_foldl_update:
  assumes "\<And>ps. dom (f ps) = set ps"
  shows "dom (foldl (\<lambda>results block. results ++ f block) m bs) = dom m \<union> set (concat bs)"
  by (induction bs arbitrary: m) (auto simp: assms)

lemma Storage_files_exist_dom:
  assumes f: "\<And>ps. dom (f ps) = set ps"
    and sc: "n_threads \<noteq> 0 \<Longrightarrow> mset (concat (scatter file_paths n_threads)) = mset file_paths"
    and co: "n_threads \<noteq> 0 \<Longrightarrow>
               mset (completion (scatter file_paths n_threads)) = mset (scatter file_paths n_threads)"
  shows "dom (Storage_files_exist n_threads scatter completion f file_paths) = set file_paths"
proof (cases "n_threads = 0")
  case True
  then show ?thesis by (simp add: Storage_files_exist_def f)
next
  case False
  have "mset (concat (completion (scatter file_paths n_threads))) = mset file_paths"
    using mset_concat_permuted[OF co[OF False]] sc[OF False] by simp
  then have "set (concat (completion (scatter file_paths n_threads))) = set file_paths"
    by (rule mset_eq_setD)
  then show ?thesis
    using False dom_foldl_update[of f Map.empty, OF f] by (simp add: Storage_files_exist_def)
qed

lemma FileInterface_get_files_names: "map filename (FileInterface_get_files K fs P ps) = ps"
  by (induction ps) (simp_all add: FileInterface_get_files_def)

lemma FileInterface_files_exist_dom: "dom (FileInterface_files_exist fs P ps) = set ps"
  by (simp add: FileInterface_files_exist_def dom_map_of_conv_image_fst image_image)

lemma Storage_n_threads_http:
  "protocol P = ''http'' \<or> protocol P = ''https'' \<Longrightarrow> Storage_n_threads P n = 0"
  by (simp add: Storage_n_threads_def)


subsection \<open>The paths of a batched result\<close>

text \<open>
  C1 (amended). On the file system, through the facade, for every number of threads,
  every split of the paths into blocks that keeps each path (with its multiplicity) and
  every order in which the tasks of the blocks complete: the file names of the results
  of \<^verbatim>\<open>get_files\<close> are the input paths, each as often as it was given, and the keys of
  the result of \<^verbatim>\<open>files_exist\<close> are the input paths. The HTTP interface runs without
  threads. Its \<^verbatim>\<open>get_files\<close>, on a connection that admits a request, returns one
  result for each input path, in the reverse order of the input. Its \<^verbatim>\<open>files_exist\<close>
  returns, with the input paths as keys, when the server settles \<^verbatim>\<open>HEAD\<close> of every
  input path.
\<close>

theorem batched_key_set:
  assumes scatter: "n_threads \<noteq> 0 \<Longrightarrow>
                      mset (concat (scatter file_paths n_threads)) = mset file_paths"
    and completion: "n_threads \<noteq> 0 \<Longrightarrow>
                      mset (completion (scatter file_paths n_threads))
                        = mset (scatter file_paths n_threads)"
  shows "mset (map filename (Storage_get_files n_threads scatter completion
                 (FileInterface_get_files K fs P) file_paths)) = mset file_paths \<and>
         dom (Storage_files_exist n_threads scatter completion
                 (FileInterface_files_exist fs P) file_paths) = set file_paths \<and>
         (protocol P' = ''http'' \<or> protocol P' = ''https'' \<longrightarrow> Storage_n_threads P' n_threads = 0) \<and>
         (admits C \<longrightarrow>
            map filename (fst (HttpInterface_get_files C P' file_paths sent)) = rev file_paths) \<and>
         ((\<forall>p\<in>set file_paths. head_settled C P' p) \<longrightarrow>
            (\<exists>m. fst (HttpInterface_files_exist C P' file_paths sent) = Inr m \<and>
                 dom m = set file_paths))"
proof (intro conjI impI)
  show "mset (map filename (Storage_get_files n_threads scatter completion
          (FileInterface_get_files K fs P) file_paths)) = mset file_paths"
    by (rule Storage_get_files_names)
       (rule FileInterface_get_files_names, erule scatter, erule completion)
  show "dom (Storage_files_exist n_threads scatter completion
          (FileInterface_files_exist fs P) file_paths) = set file_paths"
    by (rule Storage_files_exist_dom)
       (rule FileInterface_files_exist_dom, erule scatter, erule completion)
  show "Storage_n_threads P' n_threads = 0" if "protocol P' = ''http'' \<or> protocol P' = ''https''"
    using that by (rule Storage_n_threads_http)
  show "map filename (fst (HttpInterface_get_files C P' file_paths sent)) = rev file_paths"
    if "admits C"
    using that by (rule HttpInterface_get_files_names)
  show "\<exists>m. fst (HttpInterface_files_exist C P' file_paths sent) = Inr m \<and> dom m = set file_paths"
    if "\<forall>p\<in>set file_paths. head_settled C P' p"
    using that by (intro HttpInterface_files_exist_returns) blast
qed

text \<open>
  Three paths, two threads, the blocks completing in the reverse order of their start; a
  server that answers every request with 200.
\<close>

theorem batched_key_set_witness:
  "mset (concat (round_robin [''a'', ''b'', ''c''] 2)) = mset [''a'', ''b'', ''c''] \<and>
   mset (rev (round_robin [''a'', ''b'', ''c''] 2)) = mset (round_robin [''a'', ''b'', ''c''] 2) \<and>
   admits (status_server (\<lambda>k. 200)) \<and>
   head_settled (status_server (\<lambda>k. 200)) http_layer ''a'' \<and>
   head_settled (status_server (\<lambda>k. 200)) http_layer ''b'' \<and>
   head_settled (status_server (\<lambda>k. 200)) http_layer ''c'' \<and>
   mset (map filename (Storage_get_files 2 round_robin rev
           (FileInterface_get_files toy_codec [(''/r/a'', ''1'')] file_layer) [''a'', ''b'', ''c'']))
     = mset [''a'', ''b'', ''c''] \<and>
   dom (Storage_files_exist 2 round_robin rev
           (FileInterface_files_exist [(''/r/a'', ''1'')] file_layer) [''a'', ''b'', ''c''])
     = set [''a'', ''b'', ''c''] \<and>
   map filename (fst (HttpInterface_get_files (status_server (\<lambda>k. 200)) http_layer
           [''a'', ''b'', ''c''] 0)) = rev [''a'', ''b'', ''c''] \<and>
   (\<exists>m. fst (HttpInterface_files_exist (status_server (\<lambda>k. 200)) http_layer
           [''a'', ''b'', ''c''] 0) = Inr m \<and> dom m = set [''a'', ''b'', ''c''])"
proof -
  have rr: "round_robin [''a'', ''b'', ''c''] 2 = [[''a'', ''c''], [''b'']]"
    by code_simp
  have h1: "mset (concat (round_robin [''a'', ''b'', ''c''] 2)) = mset [''a'', ''b'', ''c'']"
    by (simp add: rr)
  have h2: "mset (rev (round_robin [''a'', ''b'', ''c''] 2)) = mset (round_robin [''a'', ''b'', ''c''] 2)"
    by simp
  have h3: "admits (status_server (\<lambda>k. 200))"
    by (simp add: admits_def status_server_def)
  have h4: "\<forall>p\<in>set [''a'', ''b'', ''c'']. head_settled (status_server (\<lambda>k. 200)) http_layer p"
    by (simp add: head_settled_def status_server_def)
  show ?thesis
    using batched_key_set[of 2 round_robin "[''a'', ''b'', ''c'']" rev toy_codec
            "[(''/r/a'', ''1'')]" file_layer http_layer "status_server (\<lambda>k. 200)" 0,
            OF h1 h2] h1 h2 h3 h4
    by simp
qed

text \<open>
  C1 fails as stated: \<^verbatim>\<open>files_exist\<close> of the HTTP interface, for one path that the
  server answers with 400, raises the client error and returns no result.
\<close>

theorem http_files_exist_raises_counterexample:
  "fst (HttpInterface_files_exist (status_server (\<lambda>k. 400)) http_layer [''x''] 0)
     = Inl (HTTPError (HTTPClientError 400))"
proof -
  have "isl (fst (HttpInterface_files_exist (status_server (\<lambda>k. 400)) http_layer [''x''] 0)) \<and>
        projl (fst (HttpInterface_files_exist (status_server (\<lambda>k. 400)) http_layer [''x''] 0))
          = HTTPError (HTTPClientError 400)"
    by code_simp
  then show ?thesis
    by (cases "fst (HttpInterface_files_exist (status_server (\<lambda>k. 400)) http_layer [''x''] 0)")
       simp_all
qed

subsection \<open>The failure of one item of a batch\<close>

lemma filter_file_results:
  "filter (\<lambda>r. filename r \<noteq> q) (map (\<lambda>p. file_result p (f p)) ps)
     = map (\<lambda>p. file_result p (f p)) (filter (\<lambda>p. p \<noteq> q) ps)"
  by (induction ps) simp_all

lemma error_file_result:
  "error (file_result p r) = (case r of Inl e \<Rightarrow> Some e | Inr c \<Rightarrow> None)"
  by (simp add: file_result_def split: sum.splits)

lemma error_file_results:
  "r \<in> set (map (\<lambda>p. file_result p (f p)) ps) \<Longrightarrow>
   error r = (case f (filename r) of Inl e \<Rightarrow> Some e | Inr c \<Rightarrow> None)"
  by (auto simp: error_file_result)

text \<open>
  C2 (amended). For \<^verbatim>\<open>get_files\<close> of the file interface, and of the HTTP interface on
  a stationary server and a connection that admits a request: the results for the paths
  other than \<open>q\<close> are the results of the batch without \<open>q\<close>, whether the read of \<open>q\<close>
  raises or not; and the \<^verbatim>\<open>error\<close> of each result is the exception that the read of
  its path raises, and \<^verbatim>\<open>None\<close> when it raises none.
\<close>

theorem batch_failure_isolation:
  assumes "stationary C" and "admits C"
  shows "FileInterface_get_files K fs P (filter (\<lambda>p. p \<noteq> q) file_paths)
           = filter (\<lambda>r. filename r \<noteq> q) (FileInterface_get_files K fs P file_paths) \<and>
         (\<forall>r\<in>set (FileInterface_get_files K fs P file_paths).
            error r = (case FileInterface_get_file K fs P (filename r) of
                         Inl e \<Rightarrow> Some e | Inr c \<Rightarrow> None)) \<and>
         fst (HttpInterface_get_files C P' (filter (\<lambda>p. p \<noteq> q) file_paths) sent')
           = filter (\<lambda>r. filename r \<noteq> q) (fst (HttpInterface_get_files C P' file_paths sent)) \<and>
         (\<forall>r\<in>set (fst (HttpInterface_get_files C P' file_paths sent)).
            error r = (case fst (get_files_get_response C P' (filename r) None 0 0) of
                         Inl e \<Rightarrow> Some e | Inr c \<Rightarrow> None))"
proof (intro conjI ballI)
  show "FileInterface_get_files K fs P (filter (\<lambda>p. p \<noteq> q) file_paths)
          = filter (\<lambda>r. filename r \<noteq> q) (FileInterface_get_files K fs P file_paths)"
    unfolding FileInterface_get_files_def by (rule filter_file_results[symmetric])
  show "fst (HttpInterface_get_files C P' (filter (\<lambda>p. p \<noteq> q) file_paths) sent')
          = filter (\<lambda>r. filename r \<noteq> q) (fst (HttpInterface_get_files C P' file_paths sent))"
    unfolding HttpInterface_get_files_values[OF assms] rev_filter
    by (rule filter_file_results[symmetric])
next
  fix r assume "r \<in> set (FileInterface_get_files K fs P file_paths)"
  then show "error r = (case FileInterface_get_file K fs P (filename r) of
                          Inl e \<Rightarrow> Some e | Inr c \<Rightarrow> None)"
    unfolding FileInterface_get_files_def by (rule error_file_results)
next
  fix r assume "r \<in> set (fst (HttpInterface_get_files C P' file_paths sent))"
  then have "error r = (case map_sum id Some (fst (get_files_get_response C P' (filename r) None 0 0)) of
                          Inl e \<Rightarrow> Some e | Inr c \<Rightarrow> None)"
    unfolding HttpInterface_get_files_values[OF assms] by (rule error_file_results)
  then show "error r = (case fst (get_files_get_response C P' (filename r) None 0 0) of
                          Inl e \<Rightarrow> Some e | Inr c \<Rightarrow> None)"
    by (simp split: sum.splits)
qed

text \<open>
  Three paths over HTTP, the second answered with 400: its result carries the client
  error, the two others their content, as in the batch without it.
\<close>

theorem batch_failure_isolation_witness:
  "stationary (status_server (\<lambda>key. if key = ''https://host/d/b'' then 400 else 200)) \<and>
   admits (status_server (\<lambda>key. if key = ''https://host/d/b'' then 400 else 200)) \<and>
   fst (HttpInterface_get_files
          (status_server (\<lambda>key. if key = ''https://host/d/b'' then 400 else 200))
          http_layer [''a'', ''b'', ''c''] 0)
     = [\<lparr>filename = ''c'', content = Some ''page'', error = None\<rparr>,
        \<lparr>filename = ''b'', content = None, error = Some (HTTPError (HTTPClientError 400))\<rparr>,
        \<lparr>filename = ''a'', content = Some ''page'', error = None\<rparr>] \<and>
   fst (HttpInterface_get_files
          (status_server (\<lambda>key. if key = ''https://host/d/b'' then 400 else 200))
          http_layer (filter (\<lambda>p. p \<noteq> ''b'') [''a'', ''b'', ''c'']) 0)
     = filter (\<lambda>r. filename r \<noteq> ''b'')
         [\<lparr>filename = ''c'', content = Some ''page'', error = None\<rparr>,
          \<lparr>filename = ''b'', content = None, error = Some (HTTPError (HTTPClientError 400))\<rparr>,
          \<lparr>filename = ''a'', content = Some ''page'', error = None\<rparr>]"
proof -
  let ?C = "status_server (\<lambda>key. if key = ''https://host/d/b'' then 400 else 200)"
  have st: "stationary ?C"
    by (simp add: stationary_def status_server_def)
  have ad: "admits ?C"
    by (simp add: admits_def status_server_def)
  have v: "fst (HttpInterface_get_files ?C http_layer [''a'', ''b'', ''c''] 0)
     = [\<lparr>filename = ''c'', content = Some ''page'', error = None\<rparr>,
        \<lparr>filename = ''b'', content = None, error = Some (HTTPError (HTTPClientError 400))\<rparr>,
        \<lparr>filename = ''a'', content = Some ''page'', error = None\<rparr>]"
    by code_simp
  from batch_failure_isolation[OF st ad, of toy_codec "[]" file_layer "''b''"
         "[''a'', ''b'', ''c'']" http_layer 0 0]
  have "fst (HttpInterface_get_files ?C http_layer (filter (\<lambda>p. p \<noteq> ''b'') [''a'', ''b'', ''c'']) 0)
     = filter (\<lambda>r. filename r \<noteq> ''b'') (fst (HttpInterface_get_files ?C http_layer [''a'', ''b'', ''c''] 0))"
    by blast
  with st ad v show ?thesis by simp
qed

text \<open>
  C2 fails as stated: \<^verbatim>\<open>files_exist\<close> of the HTTP interface for the paths \<open>a\<close> and
  \<open>b\<close>, where the server answers \<open>b\<close> with 400, raises the client error, though the
  batch of \<open>a\<close> alone returns that \<open>a\<close> exists.
\<close>

theorem http_files_exist_aborts_counterexample:
  "fst (HttpInterface_files_exist
          (status_server (\<lambda>key. if key = ''https://host/d/b'' then 400 else 200))
          http_layer [''a'', ''b''] 0) = Inl (HTTPError (HTTPClientError 400)) \<and>
   \<not> isl (fst (HttpInterface_files_exist
          (status_server (\<lambda>key. if key = ''https://host/d/b'' then 400 else 200))
          http_layer [''a''] 0)) \<and>
   projr (fst (HttpInterface_files_exist
          (status_server (\<lambda>key. if key = ''https://host/d/b'' then 400 else 200))
          http_layer [''a''] 0)) ''a'' = Some (Some True)"
proof -
  let ?C = "status_server (\<lambda>key. if key = ''https://host/d/b'' then 400 else 200)"
  have "isl (fst (HttpInterface_files_exist ?C http_layer [''a'', ''b''] 0)) \<and>
        projl (fst (HttpInterface_files_exist ?C http_layer [''a'', ''b''] 0))
          = HTTPError (HTTPClientError 400)"
    by code_simp
  then have 1: "fst (HttpInterface_files_exist ?C http_layer [''a'', ''b''] 0)
                  = Inl (HTTPError (HTTPClientError 400))"
    by (cases "fst (HttpInterface_files_exist ?C http_layer [''a'', ''b''] 0)") simp_all
  have 2: "\<not> isl (fst (HttpInterface_files_exist ?C http_layer [''a''] 0)) \<and>
        projr (fst (HttpInterface_files_exist ?C http_layer [''a''] 0)) ''a'' = Some (Some True)"
    by code_simp
  from 1 2 show ?thesis by blast
qed

end
